(* ===== verification/Prelude.thy ===== *)
theory Prelude
  imports "HOL-Library.Word" "HOL-Library.Tree" "HOL-Library.List_Lexorder"
begin

text \<open>
  Shared vocabulary of the development: machine words, kernel addresses, the faults a
  call can end in, the sequencing of fallible steps, the constants of
  libs/inc/linber_ioctl.h, C strings as strcmp sees them, and generic lemmas on lists and
  signed words.
\<close>

named_theorems codes \<open>the numeric values of the protocol's return codes\<close>
named_theorems steps \<open>definitions of the fallible steps a handler is made of\<close>

type_synonym u8 = "8 word"
type_synonym u32 = "32 word"
type_synonym u64 = "64 word"
type_synonym bytes = "u8 list"

text \<open>Kernel and user addresses are 64-bit; a task is known by its pid.\<close>

type_synonym addr = u64
type_synonym uaddr = u64
type_synonym pid = nat


section \<open>Faults and sequencing\<close>

text \<open>
  How a call can fail to return to its caller: a NULL dereference, an access to freed or
  never allocated memory, list linkage that is not initialised or was already removed, a
  write past the end of an allocation, a mutex that nobody will release, or a loop that
  never ends.
\<close>

datatype fault = Null_deref | Use_after_free | Wild_pointer | List_corruption
  | Buffer_overflow | Deadlock | Spin

definition bnd :: "fault + 'a \<Rightarrow> ('a \<Rightarrow> fault + 'b) \<Rightarrow> fault + 'b" where
  "bnd m f = (case m of Inl e \<Rightarrow> Inl e | Inr x \<Rightarrow> f x)"

lemma bnd_Inl [simp]: "bnd (Inl e) f = Inl e"
  by (simp add: bnd_def)

lemma bnd_Inr [simp]: "bnd (Inr x) f = f x"
  by (simp add: bnd_def)

lemma bnd_eq_Inr: "bnd m f = Inr y \<longleftrightarrow> (\<exists>x. m = Inr x \<and> f x = Inr y)"
  by (cases m) simp_all

lemma bnd_eq_Inl: "bnd m f = Inl e \<longleftrightarrow> m = Inl e \<or> (\<exists>x. m = Inr x \<and> f x = Inl e)"
  by (cases m) simp_all

lemma bnd_assoc: "bnd (bnd m f) g = bnd m (\<lambda>x. bnd (f x) g)"
  by (cases m) simp_all

lemma bndE:
  assumes "bnd m f = Inr y"
  obtains x where "m = Inr x" and "f x = Inr y"
  using assms by (auto simp: bnd_eq_Inr)


text \<open>
  The contract of a fallible step: it ends in one of the faults F, or in a value that
  satisfies Q. The equations push a contract through the sequencing.
\<close>

definition ends_in :: "fault + 'a \<Rightarrow> fault set \<Rightarrow> ('a \<Rightarrow> bool) \<Rightarrow> bool" where
  "ends_in m F Q \<longleftrightarrow> (case m of Inl e \<Rightarrow> e \<in> F | Inr x \<Rightarrow> Q x)"

lemma ends_in_simps [simp]:
  "ends_in (Inl e) F Q \<longleftrightarrow> e \<in> F"
  "ends_in (Inr x) F Q \<longleftrightarrow> Q x"
  "ends_in (bnd m f) F Q \<longleftrightarrow> ends_in m F (\<lambda>x. ends_in (f x) F Q)"
  by (auto simp: ends_in_def bnd_def split: sum.splits)

lemma ends_in_mono:
  assumes "ends_in m F Q" and "F \<subseteq> F'" and "\<And>x. Q x \<Longrightarrow> Q' x"
  shows "ends_in m F' Q'"
  using assms by (auto simp: ends_in_def split: sum.splits)

lemma ends_in_weaken: "ends_in m F Q \<Longrightarrow> (\<And>x. Q x \<Longrightarrow> Q' x) \<Longrightarrow> ends_in m F Q'"
  by (erule ends_in_mono) auto

lemma ends_in_Inr: "ends_in m F Q \<Longrightarrow> m = Inr x \<Longrightarrow> Q x"
  by simp

lemma ends_in_cases:
  assumes "ends_in m F Q"
  obtains e where "m = Inl e" and "e \<in> F" | x where "m = Inr x" and "Q x"
  using assms by (cases m) auto

lemma ends_in_empty: "ends_in m {} Q \<longleftrightarrow> (\<exists>x. m = Inr x \<and> Q x)"
  by (cases m) auto


section \<open>Constants of linber_ioctl.h\<close>

definition LINBER_MAX_MEM_SIZE :: u32 where [codes]: "LINBER_MAX_MEM_SIZE = push_bit 22 1"
definition MAX_SERVICES :: nat where [codes]: "MAX_SERVICES = 10"

definition LINBER_IOCTL_NOT_IMPLEMENTED :: int where [codes]: "LINBER_IOCTL_NOT_IMPLEMENTED = - 32"
definition LINBER_USER_MEMORY_ERROR :: int where [codes]: "LINBER_USER_MEMORY_ERROR = - 31"
definition LINBER_KERNEL_MEMORY_ERROR :: int where [codes]: "LINBER_KERNEL_MEMORY_ERROR = - 30"
definition LINBER_PAYLOAD_SIZE_ERROR :: int where [codes]: "LINBER_PAYLOAD_SIZE_ERROR = - 29"

definition LINBER_SERVICE_REGISTRATION_FAIL :: int where
  [codes]: "LINBER_SERVICE_REGISTRATION_FAIL = - 2"
definition LINBER_SERVICE_REGISTRATION_ALREADY_EXISTS :: int where
  [codes]: "LINBER_SERVICE_REGISTRATION_ALREADY_EXISTS = - 1"
definition LINBER_SERVICE_REGISTRATION_SUCCESS :: int where
  [codes]: "LINBER_SERVICE_REGISTRATION_SUCCESS = 0"

definition LINBER_REQUEST_SUCCESS :: int where [codes]: "LINBER_REQUEST_SUCCESS = 0"
definition LINBER_ABORT_REQUEST :: int where [codes]: "LINBER_ABORT_REQUEST = - 1"
definition LINBER_REQUEST_FAILED :: int where [codes]: "LINBER_REQUEST_FAILED = - 2"

definition LINBER_SERVICE_SKIP_JOB :: int where [codes]: "LINBER_SERVICE_SKIP_JOB = 1"
definition LINBER_KILL_WORKER :: int where [codes]: "LINBER_KILL_WORKER = - 1"
definition LINBER_SERVICE_NOT_EXISTS :: int where [codes]: "LINBER_SERVICE_NOT_EXISTS = - 3"

definition LINBER_REQUEST_INIT :: int where [codes]: "LINBER_REQUEST_INIT = 0"
definition LINBER_REQUEST_WAITING :: int where [codes]: "LINBER_REQUEST_WAITING = 1"
definition LINBER_REQUEST_COMPLETED :: int where [codes]: "LINBER_REQUEST_COMPLETED = 2"


section \<open>C strings\<close>

text \<open>
  A NUL-terminated buffer is the list of its bytes; the byte after the last one of the list
  is the terminator. cstr is the part of it the string functions see.
\<close>

definition cstr :: "bytes \<Rightarrow> bytes" where
  "cstr = takeWhile (\<lambda>b. b \<noteq> 0)"

fun strcmp :: "bytes \<Rightarrow> bytes \<Rightarrow> int" where
  "strcmp [] [] = 0"
| "strcmp [] (b # bs) = - uint b"
| "strcmp (a # as) [] = uint a"
| "strcmp (a # as) (b # bs) =
     (if a \<noteq> b then uint a - uint b else if a = 0 then 0 else strcmp as bs)"

definition strlen :: "bytes \<Rightarrow> nat" where
  "strlen bs = length (cstr bs)"

lemma cstr_Nil [simp]: "cstr [] = []"
  by (simp add: cstr_def)

lemma cstr_Cons [simp]: "cstr (b # bs) = (if b = 0 then [] else b # cstr bs)"
  by (simp add: cstr_def)

lemma cstr_idem [simp]: "cstr (cstr bs) = cstr bs"
  by (induction bs) auto

lemma uint_pos_iff: "0 < uint b \<longleftrightarrow> b \<noteq> 0" for b :: u8
  by (auto simp: less_le word_uint_eq_iff)

lemma strcmp_eq_0 [simp]: "strcmp xs ys = 0 \<longleftrightarrow> cstr xs = cstr ys"
  by (induction xs ys rule: strcmp.induct) (auto simp: word_uint_eq_iff)

lemma strcmp_less_0 [simp]: "strcmp xs ys < 0 \<longleftrightarrow> cstr xs < cstr ys"
  by (induction xs ys rule: strcmp.induct)
    (auto simp: word_less_def uint_pos_iff not_less)

lemma strcmp_greater_0 [simp]: "0 < strcmp xs ys \<longleftrightarrow> cstr ys < cstr xs"
  by (metis not_less_iff_gr_or_eq strcmp_eq_0 strcmp_less_0)


section \<open>Signed readings of words\<close>

lemma sint_diff_in_range:
  fixes a b :: u64
  assumes "- (2 ^ 63) \<le> sint a - sint b" and "sint a - sint b < 2 ^ 63"
  shows "sint (a - b) = sint a - sint b"
proof -
  have "sint (a - b) = signed_take_bit 63 (sint a - sint b)"
    by (simp add: sint_word_ariths)
  also have "\<dots> = sint a - sint b"
    using assms by (intro signed_take_bit_int_eq_self) simp_all
  finally show ?thesis .
qed


lemma unat_Suc_less: "x < y \<Longrightarrow> unat (x + 1) = Suc (unat x)" for x y :: "'a::len word"
proof -
  assume "x < y"
  then have "unat x < unat y" by (simp add: word_less_nat_alt)
  moreover have "unat y < 2 ^ LENGTH('a)" by (rule unsigned_less)
  ultimately have "unat x + 1 < 2 ^ LENGTH('a)" by linarith
  then show "unat (x + 1) = Suc (unat x)" by (simp add: unat_word_ariths)
qed


lemma of_nat_less_u32:
  "i < 2 ^ 32 \<Longrightarrow> j < 2 ^ 32 \<Longrightarrow> (of_nat i :: u32) < of_nat j \<longleftrightarrow> i < j"
  by (simp add: word_less_nat_alt unat_of_nat take_bit_nat_eq_self)


section \<open>Lists\<close>

lemma distinct_concat_map_append:
  "distinct (concat xss) \<Longrightarrow> xs \<in> set xss \<Longrightarrow> distinct xs"
  by (metis distinct_concat_iff)

lemma sorted_wrt_map_mid:
  "sorted_wrt P (xs @ y # zs) \<longleftrightarrow>
    sorted_wrt P (xs @ zs) \<and> (\<forall>x \<in> set xs. P x y) \<and> (\<forall>z \<in> set zs. P y z)"
  by (auto simp: sorted_wrt_append)

lemma map_of_insert_mid:
  "k \<notin> fst ` set xs \<Longrightarrow> map_of (xs @ (k, v) # ys) = (map_of (xs @ ys))(k \<mapsto> v)"
  by (induction xs) (auto simp: fun_upd_twist)

lemma map_of_delete_mid:
  "k \<notin> fst ` set xs \<Longrightarrow> k \<notin> fst ` set ys \<Longrightarrow>
    map_of (xs @ ys) = (map_of (xs @ (k, v) # ys))(k := None)"
  by (simp add: map_of_insert_mid fun_upd_idem map_of_eq_None_iff image_Un
      del: map_of_append)

end
