(* ===== verification/Linux_Rbtree.thy ===== *)
theory Linux_Rbtree
  imports Prelude
begin

text \<open>
  The interface of the kernel's red-black tree (linux/rbtree.h) as the module uses it. The
  code of the kernel is not part of the repository: its balancing functions are the fields
  of a record that every operation of the module takes as an argument, and what their
  documentation promises is the predicate rb_ok: linking a new node at the empty place a
  search found and rebalancing puts it between its in-order neighbours, erasing a node
  leaves the other nodes in their order, and rb_first is the leftmost node.
  Everything else here (descending from the root, reading and changing a container in
  place) is what the C code writes itself with rb_left, rb_right and container_of.
\<close>

section \<open>Trees, paths and places\<close>

datatype rb_dir = Rb_left | Rb_right

type_synonym rb_path = "rb_dir list"

text \<open>A node holds the container it is embedded in and its colour (True is red).\<close>

type_synonym 'c rb_root = "('c \<times> bool) tree"

definition conts :: "'c rb_root \<Rightarrow> 'c list" where
  "conts t = map fst (inorder t)"

lemma conts_Leaf [simp]: "conts Leaf = []"
  by (simp add: conts_def)

lemma conts_Node [simp]: "conts (Node l n r) = conts l @ fst n # conts r"
  by (simp add: conts_def)

lemma conts_eq_Nil [simp]: "conts t = [] \<longleftrightarrow> t = Leaf"
  by (cases t) simp_all

text \<open>A node pointer is the path from the root; rb_at is the subtree it points to.\<close>

fun rb_at :: "rb_path \<Rightarrow> 'c rb_root \<Rightarrow> 'c rb_root option" where
  "rb_at [] t = Some t"
| "rb_at (d # p) Leaf = None"
| "rb_at (Rb_left # p) (Node l n r) = rb_at p l"
| "rb_at (Rb_right # p) (Node l n r) = rb_at p r"

text \<open>The containers in order before and after the subtree a path leads to.\<close>

fun rb_before :: "rb_path \<Rightarrow> 'c rb_root \<Rightarrow> 'c list" where
  "rb_before (Rb_left # p) (Node l n r) = rb_before p l"
| "rb_before (Rb_right # p) (Node l n r) = conts l @ fst n # rb_before p r"
| "rb_before p t = []"

fun rb_after :: "rb_path \<Rightarrow> 'c rb_root \<Rightarrow> 'c list" where
  "rb_after (Rb_left # p) (Node l n r) = rb_after p l @ fst n # conts r"
| "rb_after (Rb_right # p) (Node l n r) = rb_after p r"
| "rb_after p t = []"

text \<open>A write through a pointer to the container at a path.\<close>

fun rb_modify :: "rb_path \<Rightarrow> ('c \<Rightarrow> 'c) \<Rightarrow> 'c rb_root \<Rightarrow> 'c rb_root" where
  "rb_modify [] f (Node l n r) = Node l (f (fst n), snd n) r"
| "rb_modify (Rb_left # p) f (Node l n r) = Node (rb_modify p f l) n r"
| "rb_modify (Rb_right # p) f (Node l n r) = Node l n (rb_modify p f r)"
| "rb_modify p f Leaf = Leaf"

lemma rb_at_conts: "rb_at p t = Some u \<Longrightarrow> conts t = rb_before p t @ conts u @ rb_after p t"
  by (induction p t rule: rb_at.induct) auto

lemma rb_at_modify:
  "rb_at p t = Some (Node l n r) \<Longrightarrow> rb_at p (rb_modify p f t) = Some (Node l (f (fst n), snd n) r)"
  by (induction p t rule: rb_at.induct) auto

lemma rb_before_modify [simp]: "rb_before p (rb_modify p f t) = rb_before p t"
  by (induction p f t rule: rb_modify.induct) auto

lemma rb_after_modify [simp]: "rb_after p (rb_modify p f t) = rb_after p t"
  by (induction p f t rule: rb_modify.induct) auto

lemma conts_rb_modify:
  "rb_at p t = Some (Node l n r) \<Longrightarrow>
    conts (rb_modify p f t) = rb_before p t @ conts l @ f (fst n) # conts r @ rb_after p t"
  using rb_at_conts [OF rb_at_modify, of p t l n r f] by simp


section \<open>Descending from the root\<close>

text \<open>
  The search loops compare the wanted key with the container at each node: left when the
  result is negative, right when it is positive, and stop when it is zero. Where no
  container matches, the loop ends at the empty place where a new node would be linked.
\<close>

datatype 'c rb_place = Rb_link rb_path | Rb_found rb_path 'c

fun rb_push :: "rb_dir \<Rightarrow> 'c rb_place \<Rightarrow> 'c rb_place" where
  "rb_push d (Rb_link p) = Rb_link (d # p)"
| "rb_push d (Rb_found p c) = Rb_found (d # p) c"

fun rb_descend :: "('c \<Rightarrow> int) \<Rightarrow> 'c rb_root \<Rightarrow> 'c rb_place" where
  "rb_descend cmp Leaf = Rb_link []"
| "rb_descend cmp (Node l n r) =
     (if cmp (fst n) < 0 then rb_push Rb_left (rb_descend cmp l)
      else if cmp (fst n) > 0 then rb_push Rb_right (rb_descend cmp r)
      else Rb_found [] (fst n))"

lemma rb_push_eq_link: "rb_push d x = Rb_link p \<longleftrightarrow> (\<exists>q. p = d # q \<and> x = Rb_link q)"
  by (cases x) auto

lemma rb_push_eq_found: "rb_push d x = Rb_found p c \<longleftrightarrow> (\<exists>q. p = d # q \<and> x = Rb_found q c)"
  by (cases x) auto

lemma rb_descend_link: "rb_descend cmp t = Rb_link p \<Longrightarrow> rb_at p t = Some Leaf"
  by (induction t arbitrary: p) (auto simp: rb_push_eq_link split: if_splits)

lemma rb_descend_found:
  "rb_descend cmp t = Rb_found p c \<Longrightarrow>
    cmp c = 0 \<and> (\<exists>l k r. rb_at p t = Some (Node l (c, k) r))"
  by (induction t arbitrary: p) (auto simp: rb_push_eq_found split: if_splits)

lemma rb_descend_in: "rb_descend cmp t = Rb_found p c \<Longrightarrow> c \<in> set (conts t)"
  by (induction t arbitrary: p) (auto simp: rb_push_eq_found split: if_splits)

text \<open>A comparison agrees with a key function when its sign is the order of the keys.\<close>

definition cmp_agrees :: "('c \<Rightarrow> int) \<Rightarrow> ('c \<Rightarrow> 'k::linorder) \<Rightarrow> 'k \<Rightarrow> 'c list \<Rightarrow> bool" where
  "cmp_agrees cmp key x cs \<longleftrightarrow>
     (\<forall>c \<in> set cs. (cmp c < 0 \<longleftrightarrow> x < key c) \<and> (0 < cmp c \<longleftrightarrow> key c < x))"

lemma cmp_agrees_append [simp]:
  "cmp_agrees cmp key x (as @ bs) \<longleftrightarrow> cmp_agrees cmp key x as \<and> cmp_agrees cmp key x bs"
  by (auto simp: cmp_agrees_def)

lemma cmp_agrees_Cons [simp]:
  "cmp_agrees cmp key x (c # cs) \<longleftrightarrow>
    (cmp c < 0 \<longleftrightarrow> x < key c) \<and> (0 < cmp c \<longleftrightarrow> key c < x) \<and> cmp_agrees cmp key x cs"
  by (auto simp: cmp_agrees_def)

abbreviation keys_sorted :: "('c \<Rightarrow> 'k::linorder) \<Rightarrow> 'c list \<Rightarrow> bool" where
  "keys_sorted key cs \<equiv> sorted_wrt (\<lambda>a b. key a < key b) cs"

lemma rb_descend_link_sorted:
  assumes "keys_sorted key (conts t)" and "cmp_agrees cmp key x (conts t)"
    and "rb_descend cmp t = Rb_link p"
  shows "(\<forall>c \<in> set (rb_before p t). key c < x) \<and> (\<forall>c \<in> set (rb_after p t). x < key c)"
  using assms
proof (induction t arbitrary: p)
  case (Node l n r)
  then show ?case
    by (auto simp: rb_push_eq_link sorted_wrt_append split: if_splits)
      (meson order.strict_trans)+
qed simp

lemma rb_descend_found_sorted:
  assumes "keys_sorted key (conts t)" and "cmp_agrees cmp key x (conts t)"
    and "rb_descend cmp t = Rb_found p c"
  shows "key c = x \<and> c \<in> set (conts t)"
  using assms
  by (induction t arbitrary: p)
    (auto simp: rb_push_eq_found sorted_wrt_append split: if_splits)

lemma rb_descend_link_notin:
  assumes "keys_sorted key (conts t)" and "cmp_agrees cmp key x (conts t)"
    and "rb_descend cmp t = Rb_link p" and "c \<in> set (conts t)"
  shows "key c \<noteq> x"
proof -
  have "rb_at p t = Some Leaf"
    using assms(3) by (rule rb_descend_link)
  then have "c \<in> set (rb_before p t) \<union> set (rb_after p t)"
    using rb_at_conts assms(4) by fastforce
  with rb_descend_link_sorted [OF assms(1-3)] show ?thesis by auto
qed


section \<open>The kernel's balancing functions\<close>

text \<open>
  rb_insert stands for rb_link_node followed by rb_insert_color at the place a search
  ended, rb_erase for rb_erase and rb_first for rb_first.
\<close>

record 'c rb_ops =
  rb_insert :: "rb_path \<Rightarrow> 'c \<Rightarrow> 'c rb_root \<Rightarrow> 'c rb_root"
  rb_erase :: "rb_path \<Rightarrow> 'c rb_root \<Rightarrow> 'c rb_root"
  rb_first :: "'c rb_root \<Rightarrow> rb_path option"

definition rb_ok :: "'c rb_ops \<Rightarrow> bool" where
  "rb_ok ops \<longleftrightarrow>
     (\<forall>p c t. rb_at p t = Some Leaf \<longrightarrow>
        conts (rb_insert ops p c t) = rb_before p t @ c # rb_after p t) \<and>
     (\<forall>p t l n r. rb_at p t = Some (Node l n r) \<longrightarrow>
        conts (rb_erase ops p t) = rb_before p t @ conts l @ conts r @ rb_after p t) \<and>
     (\<forall>t. rb_first ops t = None \<longrightarrow> t = Leaf) \<and>
     (\<forall>t p. rb_first ops t = Some p \<longrightarrow>
        (\<exists>n r. rb_at p t = Some (Node Leaf n r) \<and> rb_before p t = []))"

lemmas rb_ok_insert = rb_ok_def [THEN iffD1, THEN conjunct1, rule_format]
lemmas rb_ok_erase = rb_ok_def [THEN iffD1, THEN conjunct2, THEN conjunct1, rule_format]
lemmas rb_ok_first_None =
  rb_ok_def [THEN iffD1, THEN conjunct2, THEN conjunct2, THEN conjunct1, rule_format]
lemmas rb_ok_first_Some =
  rb_ok_def [THEN iffD1, THEN conjunct2, THEN conjunct2, THEN conjunct2, rule_format]

lemma rb_ok_first_Leaf:
  assumes "rb_ok ops"
  shows "rb_first ops Leaf = None"
proof (cases "rb_first ops Leaf")
  case (Some p)
  from rb_ok_first_Some [OF assms this] show ?thesis by (cases p) auto
qed


section \<open>A reference instance\<close>

text \<open>
  An unbalanced tree that keeps the order: it shows that rb_ok can hold and lets closed
  examples run. No theorem about the module depends on it.
\<close>

fun plain_insert :: "rb_path \<Rightarrow> 'c \<Rightarrow> 'c rb_root \<Rightarrow> 'c rb_root" where
  "plain_insert (Rb_left # p) c (Node l n r) = Node (plain_insert p c l) n r"
| "plain_insert (Rb_right # p) c (Node l n r) = Node l n (plain_insert p c r)"
| "plain_insert p c t = Node Leaf (c, True) Leaf"

fun plain_join :: "'c rb_root \<Rightarrow> 'c rb_root \<Rightarrow> 'c rb_root" where
  "plain_join Leaf t = t"
| "plain_join (Node l n r) t = Node l n (plain_join r t)"

fun plain_erase :: "rb_path \<Rightarrow> 'c rb_root \<Rightarrow> 'c rb_root" where
  "plain_erase (Rb_left # p) (Node l n r) = Node (plain_erase p l) n r"
| "plain_erase (Rb_right # p) (Node l n r) = Node l n (plain_erase p r)"
| "plain_erase [] (Node l n r) = plain_join l r"
| "plain_erase p Leaf = Leaf"

fun plain_first :: "'c rb_root \<Rightarrow> rb_path option" where
  "plain_first Leaf = None"
| "plain_first (Node Leaf n r) = Some []"
| "plain_first (Node l n r) = map_option (Cons Rb_left) (plain_first l)"

definition plain_ops :: "'c rb_ops" where
  "plain_ops = \<lparr>rb_insert = plain_insert, rb_erase = plain_erase, rb_first = plain_first\<rparr>"

lemma conts_plain_insert:
  "rb_at p t = Some Leaf \<Longrightarrow> conts (plain_insert p c t) = rb_before p t @ c # rb_after p t"
  by (induction p c t rule: plain_insert.induct) auto

lemma conts_plain_join [simp]: "conts (plain_join l r) = conts l @ conts r"
  by (induction l) auto

lemma conts_plain_erase:
  "rb_at p t = Some (Node l n r) \<Longrightarrow>
    conts (plain_erase p t) = rb_before p t @ conts l @ conts r @ rb_after p t"
proof (induction p t rule: plain_erase.induct)
  case (4 p)
  then show ?case by (cases p) simp_all
qed auto

lemma plain_first_None: "plain_first t = None \<longleftrightarrow> t = Leaf"
  by (induction t rule: plain_first.induct) auto

lemma plain_first_Some:
  "plain_first t = Some p \<Longrightarrow>
    (\<exists>n r. rb_at p t = Some (Node Leaf n r) \<and> rb_before p t = [])"
  by (induction t arbitrary: p rule: plain_first.induct) auto

lemma rb_ok_plain [simp]: "rb_ok plain_ops"
  by (auto simp add: rb_ok_def plain_ops_def conts_plain_insert conts_plain_erase
      plain_first_None simp del: split_paired_Ex dest: plain_first_Some)

end
