(* ===== verification/Request_Tree.thy ===== *)
theory Request_Tree
  imports Linux_Rbtree "HOL-Library.Multiset"
begin

text \<open>
  The tree of waiting requests of a service (driver/src/linber_RBtree.c and
  driver/inc/linber_RBtree.h): containers keyed by absolute deadline, each with the queue
  of the requests that share the deadline. The specification is a list of pairs of a
  deadline and a request in the order the requests will be taken: earliest deadline
  first, first come first served among equal deadlines. Deadlines are compared through
  the sign of a 64-bit difference when inserting and of its low 32 bits when searching.
\<close>

record RBtree_RequestNode =
  unique_id :: u64
  RequestHead :: "addr list"

type_synonym req_root = "RBtree_RequestNode rb_root"
type_synonym req_ops = "RBtree_RequestNode rb_ops"


section \<open>Operations\<close>

text \<open>Request queues are intrusive lists; a request is known by its address.\<close>

definition Dequeue_Request :: "addr list \<Rightarrow> addr option \<times> addr list" where
  "Dequeue_Request head = (case head of [] \<Rightarrow> (None, []) | a # rest \<Rightarrow> (Some a, rest))"

text \<open>
  The difference of two unsigned longs read as a signed long, and as a signed int.
\<close>

definition deadline_diff_long :: "u64 \<Rightarrow> u64 \<Rightarrow> int" where
  "deadline_diff_long d k = sint (d - k)"

definition deadline_diff_int :: "u64 \<Rightarrow> u64 \<Rightarrow> int" where
  "deadline_diff_int d k = sint (ucast (d - k) :: u32)"

text \<open>
  Inserting the request at address a with deadline d; kmalloc_ok tells whether the
  container of a new deadline can be allocated.
\<close>

definition Insert_ReqNode_Sorted_by_Deadline ::
    "req_ops \<Rightarrow> bool \<Rightarrow> u64 \<Rightarrow> addr \<Rightarrow> req_root \<Rightarrow> bool \<times> req_root" where
  "Insert_ReqNode_Sorted_by_Deadline ops kmalloc_ok d a root =
     (case rb_descend (\<lambda>this. deadline_diff_long d (unique_id this)) root of
        Rb_found p this \<Rightarrow>
          (True, rb_modify p (\<lambda>c. c\<lparr>RequestHead := RequestHead c @ [a]\<rparr>) root)
      | Rb_link p \<Rightarrow>
          if \<not> kmalloc_ok then (False, root)
          else (True, rb_insert ops p \<lparr>unique_id = d, RequestHead = [a]\<rparr> root))"

definition Remove_first_request :: "req_ops \<Rightarrow> req_root \<Rightarrow> addr option \<times> req_root" where
  "Remove_first_request ops root =
     (case rb_first ops root of
        None \<Rightarrow> (None, root)
      | Some p \<Rightarrow>
          (case rb_at p root of
             Some (Node l n r) \<Rightarrow>
               let (req_node, rest) = Dequeue_Request (RequestHead (fst n));
                   root' = rb_modify p (\<lambda>c. c\<lparr>RequestHead := rest\<rparr>) root
               in if rest = [] then (req_node, rb_erase ops p root') else (req_node, root')
           | _ \<Rightarrow> (None, root)))"

text \<open>
  list_for_each_entry over a queue, stopping at the request with the wanted token: tok
  reads the token of the request at an address, None where that memory has been freed.
\<close>

fun find_token :: "(addr \<Rightarrow> u64 option) \<Rightarrow> u64 \<Rightarrow> addr list \<Rightarrow> fault + addr option" where
  "find_token tok token [] = Inr None"
| "find_token tok token (a # as) =
     (case tok a of
        None \<Rightarrow> Inl Use_after_free
      | Some t \<Rightarrow> if t = token then Inr (Some a) else find_token tok token as)"

text \<open>
  The search by deadline and token. When the deadline's queue does not hold the token the
  loop stays at the same node, so the result is an option: None means that the loop never
  ends.
\<close>

partial_function (option) RBtree_get_request ::
    "(addr \<Rightarrow> u64 option) \<Rightarrow> req_root \<Rightarrow> u64 \<Rightarrow> u64 \<Rightarrow> (fault + addr option) option" where
  "RBtree_get_request tok node d token =
     (case node of
        Leaf \<Rightarrow> Some (Inr None)
      | Node l n r \<Rightarrow>
          if deadline_diff_int d (unique_id (fst n)) < 0 then RBtree_get_request tok l d token
          else if deadline_diff_int d (unique_id (fst n)) > 0
            then RBtree_get_request tok r d token
          else (case find_token tok token (RequestHead (fst n)) of
              Inl e \<Rightarrow> Some (Inl e)
            | Inr (Some a) \<Rightarrow> Some (Inr (Some a))
            | Inr None \<Rightarrow> RBtree_get_request tok node d token))"


section \<open>Specification: a list in dispatch order\<close>

definition waiting :: "req_root \<Rightarrow> (u64 \<times> addr) list" where
  "waiting t = concat (map (\<lambda>c. map (Pair (unique_id c)) (RequestHead c)) (conts t))"

text \<open>No container is left with an empty queue.\<close>

definition no_empty_queue :: "req_root \<Rightarrow> bool" where
  "no_empty_queue t \<longleftrightarrow> (\<forall>c \<in> set (conts t). RequestHead c \<noteq> [])"

text \<open>
  The deadlines the library produces: a clock reading (below 2^63 - 1, that is 292 years
  of uptime), or the maximum value, which stands for best effort. Read as a signed long
  they range from - 1 up, and no two of them are 2^63 apart.
\<close>

definition valid_deadline :: "u64 \<Rightarrow> bool" where
  "valid_deadline d \<longleftrightarrow> - 1 \<le> sint d \<and> sint d < 2 ^ 63 - 1"

definition best_effort :: u64 where
  "best_effort = - 1"

abbreviation deadline_key :: "RBtree_RequestNode \<Rightarrow> int" where
  "deadline_key c \<equiv> sint (unique_id c)"

definition edf_tree :: "req_root \<Rightarrow> bool" where
  "edf_tree t \<longleftrightarrow> no_empty_queue t \<and> keys_sorted deadline_key (conts t) \<and>
     (\<forall>c \<in> set (conts t). valid_deadline (unique_id c))"

definition edf_insert :: "u64 \<Rightarrow> addr \<Rightarrow> (u64 \<times> addr) list \<Rightarrow> (u64 \<times> addr) list" where
  "edf_insert d a q =
     takeWhile (\<lambda>x. sint (fst x) \<le> sint d) q @ (d, a) # dropWhile (\<lambda>x. sint (fst x) \<le> sint d) q"

text \<open>Dispatching n times, and the requests that come out.\<close>

fun dispatch :: "('q \<Rightarrow> addr option \<times> 'q) \<Rightarrow> nat \<Rightarrow> 'q \<Rightarrow> addr list" where
  "dispatch deq 0 q = []"
| "dispatch deq (Suc n) q =
     (case deq q of (None, q') \<Rightarrow> [] | (Some a, q') \<Rightarrow> a # dispatch deq n q')"


section \<open>Arithmetic of the comparisons\<close>

lemma sint_inj: "sint a = sint b \<longleftrightarrow> a = (b :: u64)"
  by (auto intro: signed_word_eqI)

lemma valid_deadline_iff:
  "valid_deadline d \<longleftrightarrow> d = best_effort \<or> 0 \<le> sint d \<and> sint d < 2 ^ 63 - 1"
proof -
  have "sint d = - 1 \<longleftrightarrow> d = best_effort"
    by (metis best_effort_def signed_minus_1 sint_inj)
  then show ?thesis by (auto simp: valid_deadline_def best_effort_def)
qed

lemma valid_best_effort [simp]: "valid_deadline best_effort"
  by (simp add: valid_deadline_iff)

lemma sint_best_effort [simp]: "sint best_effort = - 1"
  by (simp add: best_effort_def)

lemma sint_diff_valid:
  assumes "valid_deadline d" and "valid_deadline k"
  shows "sint (d - k) = sint d - sint k"
  using assms by (intro sint_diff_in_range) (simp_all add: valid_deadline_def)

lemma diff_long_zero [simp]: "deadline_diff_long d k = 0 \<longleftrightarrow> k = d"
  by (auto simp: deadline_diff_long_def signed_eq_0_iff)

lemma diff_long_agrees:
  assumes "valid_deadline d" and "\<forall>c \<in> set cs. valid_deadline (unique_id c)"
  shows "cmp_agrees (\<lambda>c. deadline_diff_long d (unique_id c)) deadline_key (sint d) cs"
  using assms by (auto simp: cmp_agrees_def deadline_diff_long_def sint_diff_valid)

text \<open>Two deadlines less than 2^31 ns (about 2.1 s) apart.\<close>

definition near :: "u64 \<Rightarrow> u64 \<Rightarrow> bool" where
  "near d k \<longleftrightarrow> \<bar>sint d - sint k\<bar> < 2 ^ 31"

lemma diff_int_near:
  assumes "valid_deadline d" and "valid_deadline k" and "near d k"
  shows "deadline_diff_int d k = sint d - sint k"
proof -
  have "deadline_diff_int d k = signed_take_bit 31 (sint (d - k))"
    by (simp add: deadline_diff_int_def signed_ucast_eq sint_uint [of "d - k"])
  also have "\<dots> = sint d - sint k"
    using assms by (simp add: sint_diff_valid near_def signed_take_bit_int_eq_self)
  finally show ?thesis .
qed


section \<open>Structure: what inserting and removing do to the waiting list\<close>

abbreviation queue_entries :: "RBtree_RequestNode list \<Rightarrow> (u64 \<times> addr) list" where
  "queue_entries cs \<equiv> concat (map (\<lambda>c. map (Pair (unique_id c)) (RequestHead c)) cs)"

lemma Dequeue_Request_simps [simp]:
  "Dequeue_Request [] = (None, [])"
  "Dequeue_Request (a # rest) = (Some a, rest)"
  by (simp_all add: Dequeue_Request_def)

lemma waiting_Leaf [simp]: "waiting Leaf = []"
  by (simp add: waiting_def)

lemma no_empty_queue_Leaf [simp]: "no_empty_queue Leaf"
  by (simp add: no_empty_queue_def)

lemma edf_tree_Leaf [simp]: "edf_tree Leaf"
  by (simp add: edf_tree_def)

lemma waiting_eq_Nil: "no_empty_queue t \<Longrightarrow> waiting t = [] \<longleftrightarrow> t = Leaf"
  by (cases t) (auto simp: waiting_def no_empty_queue_def)

lemma Insert_conts:
  assumes "rb_ok ops" and "Insert_ReqNode_Sorted_by_Deadline ops k d a t = (True, t')"
  shows "(\<exists>xs c ys. conts t = xs @ c # ys \<and> unique_id c = d \<and>
             conts t' = xs @ c\<lparr>RequestHead := RequestHead c @ [a]\<rparr> # ys) \<or>
         (\<exists>xs ys. conts t = xs @ ys \<and> conts t' = xs @ \<lparr>unique_id = d, RequestHead = [a]\<rparr> # ys)"
proof (cases "rb_descend (\<lambda>c. deadline_diff_long d (unique_id c)) t")
  case (Rb_link p)
  then have "rb_at p t = Some Leaf" by (rule rb_descend_link)
  from rb_at_conts [OF this] rb_ok_insert [OF assms(1) this] show ?thesis
    using assms(2) Rb_link
    by (intro disjI2 exI [of _ "rb_before p t"] exI [of _ "rb_after p t"])
      (auto simp: Insert_ReqNode_Sorted_by_Deadline_def split: if_splits)
next
  case (Rb_found p c)
  from rb_descend_found [OF this] obtain l k' r
    where "unique_id c = d" and at: "rb_at p t = Some (Node l (c, k') r)" by auto
  then show ?thesis
    using assms(2) Rb_found rb_at_conts [OF at] conts_rb_modify [OF at]
    by (intro disjI1 exI [of _ "rb_before p t @ conts l"] exI [of _ c]
        exI [of _ "conts r @ rb_after p t"])
      (auto simp: Insert_ReqNode_Sorted_by_Deadline_def)
qed

lemma Insert_waiting:
  assumes "rb_ok ops" and "Insert_ReqNode_Sorted_by_Deadline ops k d a t = (True, t')"
  obtains xs ys where "waiting t = xs @ ys" and "waiting t' = xs @ (d, a) # ys"
proof -
  have "\<exists>xs ys. waiting t = xs @ ys \<and> waiting t' = xs @ (d, a) # ys"
    using Insert_conts [OF assms]
  proof (elim disjE exE conjE)
    fix xs c ys
    assume "conts t = xs @ c # ys" "unique_id c = d"
      "conts t' = xs @ c\<lparr>RequestHead := RequestHead c @ [a]\<rparr> # ys"
    then have "waiting t = (queue_entries (xs @ [c])) @ queue_entries ys"
      and "waiting t' = (queue_entries (xs @ [c])) @ (d, a) # queue_entries ys"
      by (simp_all add: waiting_def)
    then show ?thesis by blast
  next
    fix xs ys
    assume "conts t = xs @ ys" "conts t' = xs @ \<lparr>unique_id = d, RequestHead = [a]\<rparr> # ys"
    then have "waiting t = queue_entries xs @ queue_entries ys \<and> waiting t' = queue_entries xs @ (d, a) # queue_entries ys"
      by (simp add: waiting_def)
    then show ?thesis by blast
  qed
  then show thesis using that by blast
qed

lemma Insert_no_empty_queue:
  assumes "rb_ok ops" and "Insert_ReqNode_Sorted_by_Deadline ops k d a t = (True, t')"
    and "no_empty_queue t"
  shows "no_empty_queue t'"
  using Insert_conts [OF assms(1,2)] assms(3) by (auto simp: no_empty_queue_def)

lemma Insert_fails:
  assumes "Insert_ReqNode_Sorted_by_Deadline ops k d a t = (False, t')"
  shows "t' = t \<and> \<not> k"
  using assms
  by (auto simp: Insert_ReqNode_Sorted_by_Deadline_def split: rb_place.splits if_splits)

lemma Insert_succeeds:
  "\<exists>t'. Insert_ReqNode_Sorted_by_Deadline ops True d a t = (True, t')"
  by (auto simp: Insert_ReqNode_Sorted_by_Deadline_def split: rb_place.splits)

lemma Remove_first_Leaf [simp]:
  "rb_ok ops \<Longrightarrow> Remove_first_request ops Leaf = (None, Leaf)"
  by (simp add: Remove_first_request_def rb_ok_first_Leaf)

lemma Remove_first_conts:
  assumes "rb_ok ops" and "t \<noteq> Leaf"
    and "Remove_first_request ops t = (req, t')"
  obtains c cs where "conts t = c # cs" and "req = fst (Dequeue_Request (RequestHead c))"
    and "conts t' = (if length (RequestHead c) \<le> 1 then cs
                     else c\<lparr>RequestHead := tl (RequestHead c)\<rparr> # cs)"
proof -
  from assms(1,2) obtain p where p: "rb_first ops t = Some p"
    using rb_ok_first_None by fastforce
  from rb_ok_first_Some [OF assms(1) p] obtain n r
    where at: "rb_at p t = Some (Node Leaf n r)" and before: "rb_before p t = []" by blast
  define f :: "RBtree_RequestNode \<Rightarrow> RBtree_RequestNode"
    where "f = (\<lambda>c. c\<lparr>RequestHead := snd (Dequeue_Request (RequestHead (fst n)))\<rparr>)"
  have t: "conts t = fst n # conts r @ rb_after p t"
    using rb_at_conts [OF at] before by simp
  have m: "conts (rb_modify p f t) = f (fst n) # conts r @ rb_after p t"
    using conts_rb_modify [OF at] before by simp
  have e: "conts (rb_erase ops p (rb_modify p f t)) = conts r @ rb_after p t"
    using rb_ok_erase [OF assms(1) rb_at_modify [OF at, of f]] before by simp
  have "req = fst (Dequeue_Request (RequestHead (fst n)))"
    and "t' = (if snd (Dequeue_Request (RequestHead (fst n))) = []
               then rb_erase ops p (rb_modify p f t) else rb_modify p f t)"
    using assms(3) p at
    by (auto simp: Remove_first_request_def f_def Let_def split: prod.splits if_splits)
  with t m e show thesis
    by (intro that) (auto simp: f_def Dequeue_Request_def Suc_le_eq split: list.splits if_splits)
qed

lemma Remove_first_waiting:
  assumes "rb_ok ops" and "no_empty_queue t" and "waiting t = (d, a) # rest"
  obtains t' where "Remove_first_request ops t = (Some a, t')" and "waiting t' = rest"
    and "no_empty_queue t'"
    and "\<exists>c c' cs. conts t = c # cs \<and> conts t' \<in> {cs, c' # cs} \<and> unique_id c' = unique_id c"
proof -
  obtain req t' where R: "Remove_first_request ops t = (req, t')" by fastforce
  from assms(3) have "t \<noteq> Leaf" by auto
  from Remove_first_conts [OF assms(1) this R] obtain c cs where c: "conts t = c # cs"
    "req = fst (Dequeue_Request (RequestHead c))"
    "conts t' = (if length (RequestHead c) \<le> 1 then cs
                 else c\<lparr>RequestHead := tl (RequestHead c)\<rparr> # cs)" by blast
  from c(1) assms(2) obtain x xs where x: "RequestHead c = x # xs"
    by (auto simp: no_empty_queue_def neq_Nil_conv)
  with c assms(3) have "a = x" and "d = unique_id c" by (simp_all add: waiting_def)
  have "waiting t' = rest"
    using c x assms(3) by (cases xs) (auto simp: waiting_def)
  moreover have "no_empty_queue t'"
    using c x assms(2) by (cases xs) (auto simp: no_empty_queue_def)
  moreover have "\<exists>c c' cs. conts t = c # cs \<and> conts t' \<in> {cs, c' # cs} \<and> unique_id c' = unique_id c"
    using c by (intro exI [of _ c] exI [of _ "c\<lparr>RequestHead := tl (RequestHead c)\<rparr>"] exI [of _ cs])
      auto
  ultimately show thesis
    using R c(2) x \<open>a = x\<close> by (intro that [of t']) auto
qed


section \<open>Order: the waiting list is sorted by deadline and stable\<close>

lemma edf_insert_split:
  assumes "\<forall>x \<in> set xs. sint (fst x) \<le> sint d" and "\<forall>y \<in> set ys. sint d < sint (fst y)"
  shows "edf_insert d a (xs @ ys) = xs @ (d, a) # ys"
proof -
  have "takeWhile (\<lambda>x. sint (fst x) \<le> sint d) ys = []"
    and "dropWhile (\<lambda>x. sint (fst x) \<le> sint d) ys = ys"
    using assms(2) by (cases ys, auto)+
  then show ?thesis using assms(1) by (simp add: edf_insert_def)
qed

lemma edf_tree_cmp_agrees:
  "edf_tree t \<Longrightarrow> valid_deadline d \<Longrightarrow>
    cmp_agrees (\<lambda>c. deadline_diff_long d (unique_id c)) deadline_key (sint d) (conts t)"
  by (simp add: edf_tree_def diff_long_agrees)

lemma Insert_conts_edf:
  assumes "rb_ok ops" and "edf_tree t" and "valid_deadline d"
    and "Insert_ReqNode_Sorted_by_Deadline ops k d a t = (True, t')"
  obtains xs cs ys where
    "conts t = xs @ cs @ ys"
    "\<forall>c \<in> set xs. deadline_key c < sint d" "\<forall>c \<in> set ys. sint d < deadline_key c"
    "cs = [] \<and> conts t' = xs @ \<lparr>unique_id = d, RequestHead = [a]\<rparr> # ys \<or>
     (\<exists>c. cs = [c] \<and> unique_id c = d \<and>
          conts t' = xs @ c\<lparr>RequestHead := RequestHead c @ [a]\<rparr> # ys)"
proof (cases "rb_descend (\<lambda>c. deadline_diff_long d (unique_id c)) t")
  case (Rb_link p)
  then have at: "rb_at p t = Some Leaf" by (rule rb_descend_link)
  from assms(2) have "keys_sorted deadline_key (conts t)" by (simp add: edf_tree_def)
  from rb_descend_link_sorted [OF this edf_tree_cmp_agrees [OF assms(2,3)] Rb_link]
    rb_at_conts [OF at] rb_ok_insert [OF assms(1) at] show thesis
    using assms(4) Rb_link
    by (intro that [of "rb_before p t" "[]" "rb_after p t"])
      (auto simp: Insert_ReqNode_Sorted_by_Deadline_def split: if_splits)
next
  case (Rb_found p c)
  from rb_descend_found [OF this] obtain l k' r
    where c: "unique_id c = d" and at: "rb_at p t = Some (Node l (c, k') r)" by auto
  have "keys_sorted deadline_key ((rb_before p t @ conts l) @ c # (conts r @ rb_after p t))"
    using assms(2) rb_at_conts [OF at] by (simp add: edf_tree_def)
  then show thesis
    using assms(4) Rb_found rb_at_conts [OF at] conts_rb_modify [OF at] c
    by (intro that [of "rb_before p t @ conts l" "[c]" "conts r @ rb_after p t"])
      (auto simp: Insert_ReqNode_Sorted_by_Deadline_def sorted_wrt_append)
qed

lemma Insert_edf:
  assumes "rb_ok ops" and "edf_tree t" and "valid_deadline d"
    and "Insert_ReqNode_Sorted_by_Deadline ops k d a t = (True, t')"
  shows "waiting t' = edf_insert d a (waiting t)" and "edf_tree t'"
proof -
  from Insert_conts_edf [OF assms] obtain xs cs ys where c: "conts t = xs @ cs @ ys"
    "\<forall>c \<in> set xs. deadline_key c < sint d" "\<forall>c \<in> set ys. sint d < deadline_key c"
    "cs = [] \<and> conts t' = xs @ \<lparr>unique_id = d, RequestHead = [a]\<rparr> # ys \<or>
     (\<exists>c. cs = [c] \<and> unique_id c = d \<and>
          conts t' = xs @ c\<lparr>RequestHead := RequestHead c @ [a]\<rparr> # ys)" by blast
  have "waiting t = queue_entries (xs @ cs) @ queue_entries ys"
    using c(1) by (simp add: waiting_def)
  moreover have "edf_insert d a \<dots> = queue_entries (xs @ cs) @ (d, a) # queue_entries ys"
    using c(2-4) by (intro edf_insert_split) (auto dest: less_imp_le)
  moreover have "waiting t' = queue_entries (xs @ cs) @ (d, a) # queue_entries ys"
    using c(4) by (auto simp: waiting_def)
  ultimately show "waiting t' = edf_insert d a (waiting t)" by simp
  show "edf_tree t'"
    using c assms(2,3) by (auto simp: edf_tree_def no_empty_queue_def sorted_wrt_append)
qed

lemma Remove_first_edf:
  assumes "rb_ok ops" and "edf_tree t" and "waiting t = (d, a) # rest"
  obtains t' where "Remove_first_request ops t = (Some a, t')" and "waiting t' = rest"
    and "edf_tree t'"
proof -
  from assms(2) have "no_empty_queue t" by (simp add: edf_tree_def)
  from Remove_first_waiting [OF assms(1) this assms(3)] obtain t' c c' cs
    where t': "Remove_first_request ops t = (Some a, t')" "waiting t' = rest" "no_empty_queue t'"
      and cs: "conts t = c # cs" "conts t' \<in> {cs, c' # cs}" "unique_id c' = unique_id c"
    by (metis (no_types))
  from cs t'(3) assms(2) have "edf_tree t'" by (auto simp: edf_tree_def)
  with t' show thesis by (intro that)
qed

lemma sort_key_snoc_split:
  fixes f :: "'a \<Rightarrow> 'b::linorder"
  assumes split: "sort_key f xs = T @ D"
    and T: "\<And>y. y \<in> set T \<Longrightarrow> f y \<le> f x" and D: "\<And>y. y \<in> set D \<Longrightarrow> f x < f y"
  shows "sort_key f (xs @ [x]) = T @ x # D"
proof (rule properties_for_sort_key)
  have "mset T + mset D = mset xs" by (metis mset_append mset_sort split)
  then show "mset (T @ x # D) = mset (xs @ [x])" by simp
  have "sorted (map f T @ map f D)" by (metis map_append sorted_sort_key split)
  then show "sorted (map f (T @ x # D))"
    using T D by (auto simp: sorted_append less_imp_le)
  show "filter (\<lambda>y. f k = f y) (T @ x # D) = filter (\<lambda>y. f k = f y) (xs @ [x])" for k
  proof -
    have "filter (\<lambda>y. f k = f y) (T @ D) = filter (\<lambda>y. f k = f y) xs"
      using sort_key_stable [of f "f k" xs] by (simp add: split eq_commute)
    moreover have "f k = f x \<Longrightarrow> filter (\<lambda>y. f k = f y) D = []"
      using D by (fastforce simp: filter_empty_conv)
    ultimately show ?thesis by auto
  qed
qed

lemma dropWhile_sorted_above:
  fixes f :: "'a \<Rightarrow> 'b::linorder"
  assumes "sorted (map f xs)" and "y \<in> set (dropWhile (\<lambda>y. f y \<le> b) xs)"
  shows "b < f y"
  using assms by (induction xs) (auto split: if_splits)

lemma sort_key_snoc:
  fixes f :: "'a \<Rightarrow> 'b::linorder"
  shows "sort_key f (xs @ [x]) =
    takeWhile (\<lambda>y. f y \<le> f x) (sort_key f xs) @ x # dropWhile (\<lambda>y. f y \<le> f x) (sort_key f xs)"
  by (rule sort_key_snoc_split)
    (auto dest: set_takeWhileD dropWhile_sorted_above [OF sorted_sort_key])

lemma edf_insert_sort:
  "edf_insert d a (sort_key (sint \<circ> fst) xs) = sort_key (sint \<circ> fst) (xs @ [(d, a)])"
  by (simp add: edf_insert_def sort_key_snoc)


section \<open>The interface of a deadline queue\<close>

text \<open>
  What the service code relies on: a queue with a specification list, where enqueueing
  inserts by deadline after the requests that are already due and dequeueing takes the
  head. The consequences for a client hold for any such queue.
\<close>

locale deadline_queue =
  fixes enq :: "u64 \<Rightarrow> addr \<Rightarrow> 'q \<Rightarrow> 'q"
    and deq :: "'q \<Rightarrow> addr option \<times> 'q"
    and pend :: "'q \<Rightarrow> (u64 \<times> addr) list"
    and invar :: "'q \<Rightarrow> bool"
  assumes pend_enq: "invar q \<Longrightarrow> valid_deadline d \<Longrightarrow> pend (enq d a q) = edf_insert d a (pend q)"
    and invar_enq: "invar q \<Longrightarrow> valid_deadline d \<Longrightarrow> invar (enq d a q)"
    and deq_Nil: "invar q \<Longrightarrow> pend q = [] \<Longrightarrow> deq q = (None, q)"
    and deq_Cons: "invar q \<Longrightarrow> pend q = (d, a) # rest \<Longrightarrow>
      \<exists>q'. deq q = (Some a, q') \<and> pend q' = rest \<and> invar q'"
begin

lemma dispatch_pend:
  "invar q \<Longrightarrow> dispatch deq n q = map snd (take n (pend q))"
proof (induction n arbitrary: q)
  case (Suc n)
  show ?case
  proof (cases "pend q")
    case Nil
    with deq_Nil [OF Suc.prems] show ?thesis by simp
  next
    case (Cons x rest)
    obtain d a where "x = (d, a)" by fastforce
    with Cons deq_Cons [OF Suc.prems] Suc.IH show ?thesis by fastforce
  qed
qed simp

lemma enq_all:
  assumes "invar q" and "pend q = []" and "\<forall>r \<in> set reqs. valid_deadline (fst r)"
  shows "invar (fold (\<lambda>(d, a). enq d a) reqs q) \<and>
    pend (fold (\<lambda>(d, a). enq d a) reqs q) = sort_key (sint \<circ> fst) reqs"
  using assms(3)
proof (induction reqs rule: rev_induct)
  case (snoc r reqs)
  then show ?case
    by (cases r) (simp add: pend_enq invar_enq edf_insert_sort [unfolded comp_def])
qed (simp add: assms)

lemma dispatch_order:
  assumes "invar q" and "pend q = []" and "\<forall>r \<in> set reqs. valid_deadline (fst r)"
  shows "dispatch deq (length reqs) (fold (\<lambda>(d, a). enq d a) reqs q) =
    map snd (sort_key (sint \<circ> fst) reqs)"
  using enq_all [OF assms] by (simp add: dispatch_pend)

end

text \<open>The request tree is such a queue, whatever the kernel's balancing does.\<close>

definition enqueue :: "req_ops \<Rightarrow> u64 \<Rightarrow> addr \<Rightarrow> req_root \<Rightarrow> req_root" where
  "enqueue ops d a t = snd (Insert_ReqNode_Sorted_by_Deadline ops True d a t)"

lemma enqueue_edf:
  assumes "rb_ok ops" and "edf_tree t" and "valid_deadline d"
  shows "waiting (enqueue ops d a t) = edf_insert d a (waiting t)"
    and "edf_tree (enqueue ops d a t)"
  using Insert_edf [OF assms] Insert_succeeds [of ops d a t] by (auto simp: enqueue_def)

interpretation edf: deadline_queue "enqueue ops" "Remove_first_request ops" waiting
  "\<lambda>t. rb_ok ops \<and> edf_tree t" for ops
proof unfold_locales
  fix q :: req_root
  assume inv: "rb_ok ops \<and> edf_tree q"
  show "waiting (enqueue ops d a q) = edf_insert d a (waiting q)" if "valid_deadline d" for d a
    using inv that by (simp add: enqueue_edf)
  show "rb_ok ops \<and> edf_tree (enqueue ops d a q)" if "valid_deadline d" for d a
    using inv that by (simp add: enqueue_edf)
  show "Remove_first_request ops q = (None, q)" if "waiting q = []"
    using inv that by (auto simp: waiting_eq_Nil edf_tree_def)
  show "\<exists>q'. Remove_first_request ops q = (Some a, q') \<and> waiting q' = rest \<and>
      rb_ok ops \<and> edf_tree q'" if "waiting q = (d, a) # rest" for d a rest
    using inv that by (metis Remove_first_edf)
qed


section \<open>Searching by deadline and token\<close>

text \<open>
  The loop, told apart by where the descent ends: at an empty place it returns NULL, at a
  container it searches the queue, and when the queue does not hold the token it never
  ends.
\<close>

lemma get_request_spins:
  assumes "RBtree_get_request tok t d token = Some r"
    and "rb_descend (\<lambda>c. deadline_diff_int d (unique_id c)) t = Rb_found p c"
  shows "find_token tok token (RequestHead c) \<noteq> Inr None"
proof -
  have "\<forall>p c. rb_descend (\<lambda>c. deadline_diff_int d (unique_id c)) t = Rb_found p c \<longrightarrow>
      find_token tok token (RequestHead c) \<noteq> Inr None"
    using assms(1)
  proof (rule RBtree_get_request.raw_induct [rotated])
    fix get :: "(addr \<Rightarrow> u64 option) \<Rightarrow> req_root \<Rightarrow> u64 \<Rightarrow> u64 \<Rightarrow> (fault + addr option) option"
      and tok node d token r
    assume IH: "\<And>tok t d token r. get tok t d token = Some r \<Longrightarrow>
        \<forall>p c. rb_descend (\<lambda>c. deadline_diff_int d (unique_id c)) t = Rb_found p c \<longrightarrow>
          find_token tok token (RequestHead c) \<noteq> Inr None"
      and body: "(case node of Leaf \<Rightarrow> Some (Inr None)
        | Node l n r \<Rightarrow>
            if deadline_diff_int d (unique_id (fst n)) < 0 then get tok l d token
            else if deadline_diff_int d (unique_id (fst n)) > 0 then get tok r d token
            else (case find_token tok token (RequestHead (fst n)) of
                Inl e \<Rightarrow> Some (Inl e)
              | Inr None \<Rightarrow> get tok node d token
              | Inr (Some a) \<Rightarrow> Some (Inr (Some a)))) = Some r"
    show "\<forall>p c. rb_descend (\<lambda>c. deadline_diff_int d (unique_id c)) node = Rb_found p c \<longrightarrow>
        find_token tok token (RequestHead c) \<noteq> Inr None"
    proof (cases node)
      case (Node l n r')
      consider "deadline_diff_int d (unique_id (fst n)) < 0"
        | "deadline_diff_int d (unique_id (fst n)) > 0"
        | "deadline_diff_int d (unique_id (fst n)) = 0" by linarith
      then show ?thesis
      proof cases
        case 1
        with Node body have "get tok l d token = Some r" by simp
        from IH [OF this] 1 Node show ?thesis by (auto simp: rb_push_eq_found)
      next
        case 2
        with Node body have "get tok r' d token = Some r" by simp
        from IH [OF this] 2 Node show ?thesis by (auto simp: rb_push_eq_found)
      next
        case 3
        show ?thesis
        proof (cases "find_token tok token (RequestHead (fst n)) = Inr None")
          case True
          with 3 Node body have "get tok node d token = Some r" by simp
          from IH [OF this] 3 Node show ?thesis by simp
        qed (use 3 Node in simp)
      qed
    qed simp
  qed
  with assms(2) show ?thesis by blast
qed


lemma RBtree_get_request_eq:
  "RBtree_get_request tok t d token =
    (case rb_descend (\<lambda>c. deadline_diff_int d (unique_id c)) t of
       Rb_link p \<Rightarrow> Some (Inr None)
     | Rb_found p c \<Rightarrow>
         (case find_token tok token (RequestHead c) of
            Inl e \<Rightarrow> Some (Inl e)
          | Inr (Some a) \<Rightarrow> Some (Inr (Some a))
          | Inr None \<Rightarrow> None))"
proof (induction t)
  case Leaf
  show ?case by (simp add: RBtree_get_request.simps)
next
  case (Node l n r)
  consider "deadline_diff_int d (unique_id (fst n)) < 0"
    | "deadline_diff_int d (unique_id (fst n)) > 0"
    | "deadline_diff_int d (unique_id (fst n)) = 0" by linarith
  then show ?case
  proof cases
    case 1
    with Node.IH(1) show ?thesis
      by (subst RBtree_get_request.simps) (auto split: rb_place.splits)
  next
    case 2
    with Node.IH(2) show ?thesis
      by (subst RBtree_get_request.simps) (auto split: rb_place.splits)
  next
    case 3
    show ?thesis
    proof (cases "find_token tok token (RequestHead (fst n)) = Inr None")
      case True
      with 3 have "RBtree_get_request tok (Node l n r) d token = None"
        using get_request_spins [of tok "Node l n r" d token _ "[]" "fst n"]
        by (cases "RBtree_get_request tok (Node l n r) d token") auto
      with 3 True show ?thesis by simp
    qed (use 3 in \<open>subst RBtree_get_request.simps, auto split: sum.splits option.splits\<close>)
  qed
qed

lemma find_token_Some:
  "find_token tok token as = Inr (Some a) \<Longrightarrow> a \<in> set as \<and> tok a = Some token"
  by (induction as) (auto split: option.splits if_splits)


lemma find_token_total:
  "\<forall>a \<in> set as. tok a \<noteq> None \<Longrightarrow> \<exists>r. find_token tok token as = Inr r"
  by (induction as) auto

lemma find_token_unique:
  assumes "\<forall>b \<in> set as. tok b \<noteq> None" and "\<forall>b \<in> set as. b \<noteq> a \<longrightarrow> tok b \<noteq> Some token"
    and "a \<in> set as" and "tok a = Some token"
  shows "find_token tok token as = Inr (Some a)"
  using assms
proof (induction as)
  case (Cons b as)
  show ?case
  proof (cases "b = a")
    case False
    then have "find_token tok token as = Inr (Some a)" and "tok b \<noteq> Some token"
      using Cons by simp_all
    with Cons.prems(1) show ?thesis by auto
  qed (use Cons.prems(4) in simp)
qed simp

text \<open>
  With every waiting deadline near the wanted one, the 32-bit comparison agrees with the
  order of the tree.
\<close>

lemma edf_tree_cmp_int_agrees:
  assumes "edf_tree t" and "valid_deadline d" and "\<forall>c \<in> set (conts t). near d (unique_id c)"
  shows "cmp_agrees (\<lambda>c. deadline_diff_int d (unique_id c)) deadline_key (sint d) (conts t)"
  using assms by (auto simp: cmp_agrees_def edf_tree_def diff_int_near)

lemma waiting_deadline_iff:
  "no_empty_queue t \<Longrightarrow>
    (\<exists>a. (d, a) \<in> set (waiting t)) \<longleftrightarrow> (\<exists>c \<in> set (conts t). unique_id c = d)"
  by (fastforce simp: waiting_def no_empty_queue_def neq_Nil_conv)

lemma in_waiting_iff:
  "(d, a) \<in> set (waiting t) \<longleftrightarrow>
    (\<exists>c \<in> set (conts t). unique_id c = d \<and> a \<in> set (RequestHead c))"
  by (auto simp: waiting_def)

lemma get_request_near:
  assumes "edf_tree t" and "valid_deadline d" and near: "\<forall>x \<in> set (waiting t). near d (fst x)"
  shows "RBtree_get_request tok t d token =
    (if d \<in> fst ` set (waiting t)
     then (case find_token tok token (map snd (filter (\<lambda>x. fst x = d) (waiting t))) of
             Inl e \<Rightarrow> Some (Inl e)
           | Inr (Some a) \<Rightarrow> Some (Inr (Some a))
           | Inr None \<Rightarrow> None)
     else Some (Inr None))"
proof -
  have ne: "no_empty_queue t" and sorted: "keys_sorted deadline_key (conts t)"
    using assms(1) by (simp_all add: edf_tree_def)
  have "\<forall>c \<in> set (conts t). near d (unique_id c)"
  proof
    fix c assume "c \<in> set (conts t)"
    with waiting_deadline_iff [OF ne] obtain a where "(unique_id c, a) \<in> set (waiting t)" by blast
    with near show "near d (unique_id c)" by force
  qed
  note agrees = edf_tree_cmp_int_agrees [OF assms(1,2) this]
  have mem: "d \<in> fst ` set (waiting t) \<longleftrightarrow> (\<exists>c \<in> set (conts t). unique_id c = d)"
    using waiting_deadline_iff [OF ne, of d] by force
  show ?thesis
  proof (cases "rb_descend (\<lambda>c. deadline_diff_int d (unique_id c)) t")
    case (Rb_link p)
    from rb_descend_link_notin [OF sorted agrees this] have "d \<notin> fst ` set (waiting t)"
      unfolding mem by blast
    with Rb_link show ?thesis by (simp add: RBtree_get_request_eq)
  next
    case (Rb_found p c)
    from rb_descend_found_sorted [OF sorted agrees this]
    have c: "c \<in> set (conts t)" "unique_id c = d" by (auto simp: sint_inj)
    then obtain xs ys where t: "conts t = xs @ c # ys" by (meson split_list)
    with sorted c(2) have "\<forall>c' \<in> set xs \<union> set ys. unique_id c' \<noteq> d"
      by (auto simp: sorted_wrt_append)
    with t c(2) have "map snd (filter (\<lambda>x. fst x = d) (waiting t)) = RequestHead c"
      by (simp add: waiting_def filter_concat comp_def filter_map map_replicate_const
            cong: map_cong)
    moreover have "d \<in> fst ` set (waiting t)" using c mem by blast
    ultimately show ?thesis using Rb_found by (simp add: RBtree_get_request_eq)
  qed
qed


section \<open>Properties of the request tree\<close>

text \<open>
  C1: Whatever the kernel's red-black tree does to balance itself, dispatching after any
  sequence of requests takes them in the order of their deadlines read as signed longs, and
  requests with the same deadline in the order they came.
\<close>

theorem dispatch_is_edf:
  assumes "rb_ok ops" and "\<forall>r \<in> set rs. valid_deadline (fst r)"
  shows "dispatch (Remove_first_request ops) (length rs) (fold (\<lambda>(d, a). enqueue ops d a) rs Leaf) =
    map snd (sort_key (sint \<circ> fst) rs)"
  by (rule edf.dispatch_order) (use assms in simp_all)

theorem dispatch_is_edf_witness:
  "dispatch (Remove_first_request plain_ops) 4
     (fold (\<lambda>(d, a). enqueue plain_ops d a) [(5, 1), (best_effort, 2), (3, 3), (5, 4)] Leaf) = [2, 3, 1, 4]"
  using dispatch_is_edf [of plain_ops "[(5, 1), (best_effort, 2), (3, 3), (5, 4)]"]
  by (simp add: valid_deadline_def numeral_eq_Suc del: dispatch.simps)

text \<open>
  C2: Insertion into the tree implements insertion into the deadline-ordered list of
  waiting requests, and keeps the tree's order; it fails only when a new container is
  needed and cannot be allocated, and then changes nothing.
\<close>

theorem insert_refines_edf_insert:
  assumes "rb_ok ops" and "edf_tree t" and "valid_deadline d"
    and "Insert_ReqNode_Sorted_by_Deadline ops kmalloc_ok d a t = (inserted, t')"
  shows "if inserted then waiting t' = edf_insert d a (waiting t) \<and> edf_tree t'
    else t' = t \<and> \<not> kmalloc_ok"
proof (cases inserted)
  case True
  with Insert_edf [OF assms(1-3)] assms(4) show ?thesis by simp
next
  case False
  with assms(4) have "Insert_ReqNode_Sorted_by_Deadline ops kmalloc_ok d a t = (False, t')" by simp
  from Insert_fails [OF this] False show ?thesis by simp
qed

theorem insert_refines_edf_insert_witness:
  "waiting (snd (Insert_ReqNode_Sorted_by_Deadline plain_ops True 7 1 Leaf)) = [(7, 1)]"
  using insert_refines_edf_insert [of plain_ops Leaf 7 True 1 True
      "snd (Insert_ReqNode_Sorted_by_Deadline plain_ops True 7 1 Leaf)"]
  by (simp add: valid_deadline_def edf_insert_def Insert_ReqNode_Sorted_by_Deadline_def)

text \<open>
  C3: Removal takes the request at the head of that list, and leaves the rest in order.
\<close>

theorem remove_first_refines_tail:
  assumes "rb_ok ops" and "edf_tree t" and "waiting t = (d, a) # rest"
  shows "fst (Remove_first_request ops t) = Some a \<and>
    waiting (snd (Remove_first_request ops t)) = rest \<and> edf_tree (snd (Remove_first_request ops t))"
  using Remove_first_edf [OF assms] by (metis fst_conv snd_conv)

theorem remove_first_refines_tail_witness:
  "fst (Remove_first_request plain_ops (Node Leaf (\<lparr>unique_id = 7, RequestHead = [1, 2]\<rparr>, True) Leaf)) = Some 1"
  using remove_first_refines_tail [of plain_ops
      "Node Leaf (\<lparr>unique_id = 7, RequestHead = [1, 2]\<rparr>, True) Leaf" 7 1 "[(7, 2)]"]
  by (simp add: waiting_def edf_tree_def no_empty_queue_def valid_deadline_def)

text \<open>
  C4: A best-effort request (deadline -1, the largest unsigned long) is served before every
  waiting real-time request, since the comparison reads the difference as a signed long.
\<close>

theorem best_effort_overtakes:
  assumes "rb_ok ops" and "edf_tree t" and "best_effort \<notin> fst ` set (waiting t)"
  shows "fst (Remove_first_request ops (enqueue ops best_effort a t)) = Some a"
proof -
  note e = enqueue_edf [OF assms(1,2) valid_best_effort, of a]
  have later: "- 1 < sint (fst x)" if "x \<in> set (waiting t)" for x
  proof -
    from that in_waiting_iff [of "fst x" "snd x" t] obtain c
      where "c \<in> set (conts t)" "unique_id c = fst x" by auto
    with assms(2) have "valid_deadline (fst x)" by (auto simp: edf_tree_def)
    moreover have "fst x \<noteq> best_effort" using assms(3) that by force
    ultimately show ?thesis by (auto simp: valid_deadline_iff)
  qed
  have "edf_insert best_effort a ([] @ waiting t) = [] @ (best_effort, a) # waiting t"
    by (rule edf_insert_split) (use later in simp_all)
  with e(1) have "waiting (enqueue ops best_effort a t) = (best_effort, a) # waiting t" by simp
  from Remove_first_edf [OF assms(1) e(2) this] obtain t'
    where "Remove_first_request ops (enqueue ops best_effort a t) = (Some a, t')" by blast
  then show ?thesis by simp
qed

theorem best_effort_overtakes_witness:
  "fst (Remove_first_request plain_ops (enqueue plain_ops best_effort 9
     (Node Leaf (\<lparr>unique_id = 7, RequestHead = [1]\<rparr>, True) Leaf))) = Some 9"
  by (rule best_effort_overtakes)
    (simp_all add: waiting_def edf_tree_def no_empty_queue_def valid_deadline_def best_effort_def)

text \<open>
  C5: The search by deadline and token finds a waiting request, when the deadlines in the
  tree are less than 2^31 ns from the one asked for and the token is the request's alone.
\<close>

theorem lookup_finds_waiting:
  assumes "edf_tree t" and "\<forall>x \<in> set (waiting t). near d (fst x)"
    and "(d, a) \<in> set (waiting t)" and "tok a = Some token"
    and "\<forall>x \<in> set (waiting t). tok (snd x) \<noteq> None \<and> (snd x \<noteq> a \<longrightarrow> tok (snd x) \<noteq> Some token)"
  shows "RBtree_get_request tok t d token = Some (Inr (Some a))"
proof -
  from assms(3) obtain c where "c \<in> set (conts t)" "unique_id c = d"
    by (auto simp: in_waiting_iff)
  with assms(1) have d: "valid_deadline d" by (auto simp: edf_tree_def)
  let ?as = "map snd (filter (\<lambda>x. fst x = d) (waiting t))"
  have others: "tok b \<noteq> None \<and> (b \<noteq> a \<longrightarrow> tok b \<noteq> Some token)" if "b \<in> set ?as" for b
  proof -
    from that obtain x where "x \<in> set (waiting t)" "snd x = b" by auto
    with assms(5) show ?thesis by blast
  qed
  have "a \<in> set ?as" using assms(3) by force
  with others assms(4) have "find_token tok token ?as = Inr (Some a)"
    by (intro find_token_unique) blast+
  moreover have "d \<in> fst ` set (waiting t)" using assms(3) by force
  ultimately show ?thesis by (simp add: get_request_near [OF assms(1) d assms(2)])
qed

theorem lookup_finds_waiting_witness:
  "RBtree_get_request (\<lambda>a. Some (10 * a))
     (Node Leaf (\<lparr>unique_id = 7, RequestHead = [1, 2]\<rparr>, True) Leaf) 7 20 = Some (Inr (Some 2))"
  by (rule lookup_finds_waiting)
    (simp_all add: waiting_def edf_tree_def no_empty_queue_def valid_deadline_def near_def)



text \<open>
  C7: The search keeps the difference of two deadlines in an int where the insertion keeps
  it in a long: a request queued 2^31 ns (2.1 s) after the one at the root is in the tree,
  and reported as absent, whatever its token.
\<close>

theorem lookup_loses_far_deadline:
  "let t = Node Leaf (\<lparr>unique_id = k, RequestHead = [a]\<rparr>, c1)
             (Node Leaf (\<lparr>unique_id = k + 2 ^ 31, RequestHead = [b]\<rparr>, c2) Leaf)
   in (k + 2 ^ 31, b) \<in> set (waiting t) \<and>
      Insert_ReqNode_Sorted_by_Deadline ops True (k + 2 ^ 31) b
        (Node Leaf (\<lparr>unique_id = k, RequestHead = [a]\<rparr>, c1) Leaf) =
        (True, rb_insert ops [Rb_right] \<lparr>unique_id = k + 2 ^ 31, RequestHead = [b]\<rparr>
          (Node Leaf (\<lparr>unique_id = k, RequestHead = [a]\<rparr>, c1) Leaf)) \<and>
      RBtree_get_request tok t (k + 2 ^ 31) token = Some (Inr None)"
  by (simp add: waiting_def RBtree_get_request_eq deadline_diff_int_def deadline_diff_long_def
      Insert_ReqNode_Sorted_by_Deadline_def)

end
