(* ===== verification/Service_Tree.thy ===== *)
theory Service_Tree
  imports Linux_Rbtree
begin

text \<open>
  The tree of registered services (driver/src/linber_RBtree.c and
  driver/inc/linber_RBtree.h), keyed by the service's URI as strcmp compares it. The
  specification is a finite map from C strings to service nodes.
\<close>

record RBtree_ServiceNode =
  service_uri :: bytes
  Service :: addr

type_synonym ser_root = "RBtree_ServiceNode rb_root"
type_synonym ser_ops = "RBtree_ServiceNode rb_ops"


section \<open>Operations\<close>

definition Insert_ServiceNode ::
    "ser_ops \<Rightarrow> bool \<Rightarrow> bytes \<Rightarrow> addr \<Rightarrow> ser_root \<Rightarrow> bool \<times> ser_root" where
  "Insert_ServiceNode ops kmalloc_ok uri ser_node root =
     (case rb_descend (\<lambda>this. strcmp uri (service_uri this)) root of
        Rb_found p this \<Rightarrow> (False, root)
      | Rb_link p \<Rightarrow>
          if \<not> kmalloc_ok then (False, root)
          else (True, rb_insert ops p \<lparr>service_uri = uri, Service = ser_node\<rparr> root))"

definition get_ServiceNode :: "ser_root \<Rightarrow> bytes \<Rightarrow> addr option" where
  "get_ServiceNode root uri =
     (case rb_descend (\<lambda>c. strcmp uri (service_uri c)) root of
        Rb_found p c \<Rightarrow> Some (Service c)
      | Rb_link p \<Rightarrow> None)"

definition Remove_Service :: "ser_ops \<Rightarrow> ser_root \<Rightarrow> bytes \<Rightarrow> addr option \<times> ser_root" where
  "Remove_Service ops root uri =
     (case rb_descend (\<lambda>c. strcmp uri (service_uri c)) root of
        Rb_found p c \<Rightarrow> (Some (Service c), rb_erase ops p root)
      | Rb_link p \<Rightarrow> (None, root))"

definition Remove_first_Service :: "ser_ops \<Rightarrow> ser_root \<Rightarrow> addr option \<times> ser_root" where
  "Remove_first_Service ops root =
     (case rb_first ops root of
        None \<Rightarrow> (None, root)
      | Some p \<Rightarrow>
          (case rb_at p root of
             Some (Node l n r) \<Rightarrow> (Some (Service (fst n)), rb_erase ops p root)
           | _ \<Rightarrow> (None, root)))"


section \<open>Specification: a map from C strings to services\<close>

abbreviation uri_key :: "RBtree_ServiceNode \<Rightarrow> bytes" where
  "uri_key c \<equiv> cstr (service_uri c)"

definition uri_tree :: "ser_root \<Rightarrow> bool" where
  "uri_tree t \<longleftrightarrow> keys_sorted uri_key (conts t)"

definition directory :: "ser_root \<Rightarrow> bytes \<rightharpoonup> addr" where
  "directory t = map_of (map (\<lambda>c. (uri_key c, Service c)) (conts t))"

lemma uri_tree_Leaf [simp]: "uri_tree Leaf"
  by (simp add: uri_tree_def)

lemma directory_Leaf [simp]: "directory Leaf = Map.empty"
  by (simp add: directory_def)

lemma strcmp_agrees: "cmp_agrees (\<lambda>c. strcmp u (service_uri c)) uri_key (cstr u) cs"
  by (simp add: cmp_agrees_def)

lemma keys_sorted_distinct: "keys_sorted key cs \<Longrightarrow> distinct (map key cs)"
  for key :: "'c \<Rightarrow> 'k::linorder"
  by (induction cs) auto

lemma directory_Some_iff:
  "uri_tree t \<Longrightarrow> directory t k = Some a \<longleftrightarrow>
    (\<exists>c \<in> set (conts t). uri_key c = k \<and> Service c = a)"
  by (auto simp: directory_def uri_tree_def map_of_eq_Some_iff keys_sorted_distinct comp_def)

lemma directory_None_iff:
  "directory t k = None \<longleftrightarrow> (\<forall>c \<in> set (conts t). uri_key c \<noteq> k)"
  by (auto simp: directory_def map_of_eq_None_iff image_image)

lemma get_ServiceNode_directory:
  assumes "uri_tree t"
  shows "get_ServiceNode t u = directory t (cstr u)"
proof (cases "rb_descend (\<lambda>c. strcmp u (service_uri c)) t")
  case (Rb_link p)
  from rb_descend_link_notin [OF assms [unfolded uri_tree_def] strcmp_agrees this]
  have "directory t (cstr u) = None" by (auto simp: directory_None_iff)
  with Rb_link show ?thesis by (simp add: get_ServiceNode_def)
next
  case (Rb_found p c)
  from rb_descend_found_sorted [OF assms [unfolded uri_tree_def] strcmp_agrees this]
  have "directory t (cstr u) = Some (Service c)" using assms by (auto simp: directory_Some_iff)
  with Rb_found show ?thesis by (simp add: get_ServiceNode_def)
qed

lemma Insert_ServiceNode_conts:
  assumes "rb_ok ops" and "uri_tree t" and "Insert_ServiceNode ops k u a t = (True, t')"
  obtains xs ys where "conts t = xs @ ys"
    and "conts t' = xs @ \<lparr>service_uri = u, Service = a\<rparr> # ys"
    and "\<forall>c \<in> set xs. uri_key c < cstr u" and "\<forall>c \<in> set ys. cstr u < uri_key c"
proof -
  from assms(3) obtain p where p: "rb_descend (\<lambda>c. strcmp u (service_uri c)) t = Rb_link p"
    and t': "t' = rb_insert ops p \<lparr>service_uri = u, Service = a\<rparr> t"
    by (auto simp: Insert_ServiceNode_def split: rb_place.splits if_splits)
  from rb_descend_link [OF p] have at: "rb_at p t = Some Leaf" .
  from rb_descend_link_sorted [OF assms(2) [unfolded uri_tree_def] strcmp_agrees p]
  show thesis
    using rb_at_conts [OF at] rb_ok_insert [OF assms(1) at] t'
    by (intro that [of "rb_before p t" "rb_after p t"]) auto
qed

lemma Insert_ServiceNode_directory:
  assumes "rb_ok ops" and "uri_tree t" and "Insert_ServiceNode ops k u a t = (True, t')"
  shows "uri_tree t'" and "directory t (cstr u) = None"
    and "directory t' = (directory t)(cstr u \<mapsto> a)"
proof -
  from Insert_ServiceNode_conts [OF assms] obtain xs ys where c: "conts t = xs @ ys"
    "conts t' = xs @ \<lparr>service_uri = u, Service = a\<rparr> # ys"
    "\<forall>c \<in> set xs. uri_key c < cstr u" "\<forall>c \<in> set ys. cstr u < uri_key c" .
  show "uri_tree t'"
    using c assms(2) by (auto simp: uri_tree_def sorted_wrt_append dest: order.strict_trans)
  have notin: "cstr u \<notin> uri_key ` set xs" using c(3) by force
  show "directory t (cstr u) = None"
    using c by (auto simp: directory_None_iff)
  show "directory t' = (directory t)(cstr u \<mapsto> a)"
    using c(1,2) map_of_insert_mid [of "cstr u" "map (\<lambda>c. (uri_key c, Service c)) xs" a] notin
    by (simp add: directory_def image_image del: map_of_append)
qed

lemma Insert_ServiceNode_fails:
  assumes "uri_tree t" and "Insert_ServiceNode ops k u a t = (False, t')"
  shows "t' = t \<and> (k \<longrightarrow> directory t (cstr u) \<noteq> None)"
proof -
  have "k \<longrightarrow> get_ServiceNode t u \<noteq> None" and "t' = t"
    using assms(2) by (auto simp: Insert_ServiceNode_def get_ServiceNode_def
        split: rb_place.splits if_splits)
  with assms(1) show ?thesis by (simp add: get_ServiceNode_directory)
qed

lemma Remove_Service_conts:
  assumes "rb_ok ops" and "uri_tree t" and "Remove_Service ops t u = (Some a, t')"
  obtains xs c ys where "conts t = xs @ c # ys" and "conts t' = xs @ ys"
    and "uri_key c = cstr u" and "Service c = a"
proof -
  from assms(3) obtain p c where p: "rb_descend (\<lambda>c. strcmp u (service_uri c)) t = Rb_found p c"
    and t': "t' = rb_erase ops p t" and "Service c = a"
    by (auto simp: Remove_Service_def split: rb_place.splits)
  from rb_descend_found [OF p] obtain l k r where "uri_key c = cstr u"
    and at: "rb_at p t = Some (Node l (c, k) r)" by auto
  then show thesis
    using rb_at_conts [OF at] rb_ok_erase [OF assms(1) at] t' \<open>Service c = a\<close>
    by (intro that [of "rb_before p t @ conts l" c "conts r @ rb_after p t"]) auto
qed

lemma Remove_Service_directory:
  assumes "rb_ok ops" and "uri_tree t" and "Remove_Service ops t u = (r, t')"
  shows "uri_tree t'" and "r = directory t (cstr u)"
    and "directory t' = (directory t)(cstr u := None)"
proof -
  have r: "r = get_ServiceNode t u"
    using assms(3) by (auto simp: Remove_Service_def get_ServiceNode_def split: rb_place.splits)
  then show "r = directory t (cstr u)" using assms(2) by (simp add: get_ServiceNode_directory)
  show "uri_tree t'" "directory t' = (directory t)(cstr u := None)"
  proof (atomize (full), cases r)
    case None
    then have "t' = t"
      using assms(3) by (auto simp: Remove_Service_def split: rb_place.splits)
    with None r assms(2) show "uri_tree t' \<and> directory t' = (directory t)(cstr u := None)"
      by (simp add: get_ServiceNode_directory fun_upd_idem)
  next
    case (Some a)
    from Remove_Service_conts [OF assms(1,2) assms(3) [unfolded Some]]
    obtain xs c ys where c: "conts t = xs @ c # ys" "conts t' = xs @ ys" "uri_key c = cstr u" .
    have "keys_sorted uri_key (xs @ c # ys)" using assms(2) c(1) by (simp add: uri_tree_def)
    with c have "cstr u \<notin> uri_key ` set xs" and "cstr u \<notin> uri_key ` set ys" and "uri_tree t'"
      by (force simp: uri_tree_def sorted_wrt_append)+
    with c show "uri_tree t' \<and> directory t' = (directory t)(cstr u := None)"
      using map_of_delete_mid [of "cstr u" "map (\<lambda>c. (uri_key c, Service c)) xs"
          "map (\<lambda>c. (uri_key c, Service c)) ys" "Service c"]
      by (simp add: directory_def image_image del: map_of_append)
  qed
qed

lemma Remove_first_Service_conts:
  assumes "rb_ok ops"
  shows "Remove_first_Service ops t = (None, t) \<and> t = Leaf \<or>
    (\<exists>c t'. Remove_first_Service ops t = (Some (Service c), t') \<and> conts t = c # conts t')"
proof (cases "rb_first ops t")
  case None
  with rb_ok_first_None [OF assms] show ?thesis by (simp add: Remove_first_Service_def)
next
  case (Some p)
  from rb_ok_first_Some [OF assms this] obtain n r
    where at: "rb_at p t = Some (Node Leaf n r)" and "rb_before p t = []" by blast
  with Some rb_at_conts [OF at] rb_ok_erase [OF assms at] show ?thesis
    by (auto simp: Remove_first_Service_def)
qed


section \<open>The interface of the service directory\<close>

text \<open>
  What the module relies on: a partial map from C strings to services, with an insertion
  that refuses a string that is taken or memory that is not there.
\<close>

locale service_directory =
  fixes add :: "bool \<Rightarrow> bytes \<Rightarrow> addr \<Rightarrow> 't \<Rightarrow> bool \<times> 't"
    and del :: "bytes \<Rightarrow> 't \<Rightarrow> addr option \<times> 't"
    and look :: "'t \<Rightarrow> bytes \<Rightarrow> addr option"
    and abs :: "'t \<Rightarrow> bytes \<rightharpoonup> addr"
    and invar :: "'t \<Rightarrow> bool"
  assumes look_abs: "invar t \<Longrightarrow> look t u = abs t (cstr u)"
    and add_free: "invar t \<Longrightarrow> abs t (cstr u) = None \<Longrightarrow>
      fst (add True u a t) \<and> invar (snd (add True u a t)) \<and>
      abs (snd (add True u a t)) = (abs t)(cstr u \<mapsto> a)"
    and add_refused: "invar t \<Longrightarrow> abs t (cstr u) \<noteq> None \<or> \<not> k \<Longrightarrow> add k u a t = (False, t)"
    and del_abs: "invar t \<Longrightarrow> fst (del u t) = abs t (cstr u) \<and> invar (snd (del u t)) \<and>
      abs (snd (del u t)) = (abs t)(cstr u := None)"
begin

lemma look_add:
  "invar t \<Longrightarrow> look t u = None \<Longrightarrow>
    look (snd (add True u a t)) v = (if cstr v = cstr u then Some a else look t v)"
  using add_free [of t u a] by (simp add: look_abs)

lemma look_del:
  "invar t \<Longrightarrow> look (snd (del u t)) v = (if cstr v = cstr u then None else look t v)"
  using del_abs [of t u] by (simp add: look_abs)

lemma del_add:
  "invar t \<Longrightarrow> look t u = None \<Longrightarrow> fst (del v (snd (add True u a t))) =
    (if cstr v = cstr u then Some a else look t v)"
  using add_free [of t u a] del_abs [of "snd (add True u a t)" v] by (simp add: look_abs)

lemma add_twice:
  "invar t \<Longrightarrow> look t u = None \<Longrightarrow> cstr v = cstr u \<Longrightarrow>
    add k v b (snd (add True u a t)) = (False, snd (add True u a t))"
  using add_free [of t u a] add_refused [of "snd (add True u a t)" v k b] by (simp add: look_abs)

end

lemma Insert_ServiceNode_cases:
  assumes "uri_tree t"
  shows "directory t (cstr u) = None \<Longrightarrow> fst (Insert_ServiceNode ops True u a t)"
    and "directory t (cstr u) \<noteq> None \<or> \<not> k \<Longrightarrow> Insert_ServiceNode ops k u a t = (False, t)"
  using get_ServiceNode_directory [OF assms, of u]
  by (auto simp: Insert_ServiceNode_def get_ServiceNode_def split: rb_place.splits)

interpretation dir: service_directory "Insert_ServiceNode ops" "\<lambda>u t. Remove_Service ops t u"
  get_ServiceNode directory "\<lambda>t. rb_ok ops \<and> uri_tree t" for ops
proof unfold_locales
  fix t :: ser_root and u a
  assume inv: "rb_ok ops \<and> uri_tree t"
  then show "get_ServiceNode t u = directory t (cstr u)" by (simp add: get_ServiceNode_directory)
  show "Insert_ServiceNode ops k u a t = (False, t)" if "directory t (cstr u) \<noteq> None \<or> \<not> k" for k
    using Insert_ServiceNode_cases(2) that inv by blast
  show "fst (Insert_ServiceNode ops True u a t) \<and>
      (rb_ok ops \<and> uri_tree (snd (Insert_ServiceNode ops True u a t))) \<and>
      directory (snd (Insert_ServiceNode ops True u a t)) = (directory t)(cstr u \<mapsto> a)"
    if "directory t (cstr u) = None"
  proof -
    from Insert_ServiceNode_cases(1) inv that obtain t'
      where t': "Insert_ServiceNode ops True u a t = (True, t')" by (metis prod.collapse)
    with Insert_ServiceNode_directory [OF _ _ this] inv show ?thesis by simp
  qed
  obtain r t' where r: "Remove_Service ops t u = (r, t')" by fastforce
  with Remove_Service_directory [OF _ _ this] inv
  show "fst (Remove_Service ops t u) = directory t (cstr u) \<and>
      (rb_ok ops \<and> uri_tree (snd (Remove_Service ops t u))) \<and>
      directory (snd (Remove_Service ops t u)) = (directory t)(cstr u := None)" by simp
qed


section \<open>Properties of the service tree\<close>

text \<open>
  C8: The service tree is a map from C strings: after a service is inserted its URI finds
  it, up to the terminating NUL, and every other URI finds what it found before.
\<close>

theorem service_found_after_insert:
  assumes "rb_ok ops" and "uri_tree t" and "get_ServiceNode t u = None"
  shows "get_ServiceNode (snd (Insert_ServiceNode ops True u a t)) v =
    (if cstr v = cstr u then Some a else get_ServiceNode t v)"
  by (rule dir.look_add) (use assms in simp_all)

theorem service_found_after_insert_witness:
  "get_ServiceNode (snd (Insert_ServiceNode plain_ops True [1, 2] 7 Leaf)) [1, 2, 0, 9] = Some 7"
  using service_found_after_insert [of plain_ops Leaf "[1, 2]" 7 "[1, 2, 0, 9]"]
  by (simp add: get_ServiceNode_def)

text \<open>
  C9: A URI can be registered once only, and after the service is removed it is free again.
\<close>

theorem service_unique_until_removed:
  assumes "rb_ok ops" and "uri_tree t" and "get_ServiceNode t u = None" and "cstr v = cstr u"
    and "Insert_ServiceNode ops True u a t = (inserted, t')"
  shows "inserted \<and> Insert_ServiceNode ops kmalloc_ok v b t' = (False, t') \<and>
    fst (Remove_Service ops t' v) = Some a \<and>
    get_ServiceNode (snd (Remove_Service ops t' v)) u = None"
proof -
  have inv: "rb_ok ops \<and> uri_tree t" using assms(1,2) by simp
  have t': "t' = snd (Insert_ServiceNode ops True u a t)" using assms(5) by simp
  from assms(3) have free: "directory t (cstr u) = None" by (simp add: get_ServiceNode_directory assms(2))
  note add = dir.add_free [OF inv free, of a, folded t']
  have "inserted" using add assms(5) by simp
  then show ?thesis
    using dir.add_twice [OF inv assms(3,4), of kmalloc_ok b a] dir.del_add [OF inv assms(3), of a v]
      dir.look_del [where ops = ops and t = t' and u = v and v = u] add assms(4)
    by (simp add: t')
qed

theorem service_unique_until_removed_witness:
  "fst (Insert_ServiceNode plain_ops True [1, 2, 0] 8
     (snd (Insert_ServiceNode plain_ops True [1, 2] 7 Leaf))) = False"
  using service_unique_until_removed [of plain_ops Leaf "[1, 2]" "[1, 2, 0]" 7
      "fst (Insert_ServiceNode plain_ops True [1, 2] 7 Leaf)"
      "snd (Insert_ServiceNode plain_ops True [1, 2] 7 Leaf)" True 8]
  by (simp add: get_ServiceNode_def)

end
