(* ===== verification/Linber_State.thy ===== *)
theory Linber_State
  imports Request_Tree Service_Tree
begin

text \<open>
  The data of the module (driver/inc/linber_types.h, libs/inc/linber_ioctl.h), the memory
  it works on and what a call gets from the kernel around it. Service nodes, request nodes
  and payload buffers live in heaps indexed by kernel addresses, so that aliasing, freeing
  and use after free are visible; user memory is a map from user addresses to typed cells.
\<close>

unbundle bit_operations_syntax

section \<open>Structures of the module\<close>

record RequestNode =
  Request_sem :: nat
  client :: pid
  token :: u64
  abs_deadline_ns :: u64
  result_cmd :: int
  request_len :: u32
  response_len :: u32
  response_shm_mode :: bool
  request_shm_mode :: bool
  request :: u64
  response :: u64

text \<open>
  The unions request and response hold a pointer or, in the low 32 bits, a key_t.
\<close>

type_synonym key_t = u32

definition shm_key :: "u64 \<Rightarrow> key_t" where
  "shm_key u = ucast u"

definition set_shm_key :: "key_t \<Rightarrow> u64 \<Rightarrow> u64" where
  "set_shm_key k u = push_bit 32 (drop_bit 32 u) OR ucast k"

lemma shm_key_set [simp]: "shm_key (set_shm_key k u) = k"
  by (rule bit_word_eqI) (auto simp: shm_key_def set_shm_key_def bit_simps)

record worker_struct =
  task :: "pid option"
  serving :: "addr option"

record ServiceNode =
  service_mutex :: bool
  Requests_rbtree :: req_root
  Completed_RequestsHead :: "addr list"
  uri :: bytes
  next_req_token :: u64
  ser_token :: u64
  period :: u32
  budget :: u32
  exec_time_ns :: u32
  Request_count :: u32
  destroy_me :: bool
  worker_slots :: "worker_struct list"
  Max_Workers :: u32
  count_registered :: u32
  next_id :: u32
  sem_for_request :: nat

record sched_attr =
  attr_size :: u32
  sched_policy :: u32
  sched_flags :: u64
  sched_nice :: u32
  sched_priority :: u32
  sched_runtime :: u64
  sched_deadline :: u64
  sched_period :: u64


section \<open>Structures shared with user space\<close>

text \<open>
  The members of the union op_params are separate records here: an operation reads only
  its own member. A boolean of the interface is an int.
\<close>

record registration =
  reg_Max_Working :: u32
  ptr_service_token :: uaddr
  reg_exec_time_ns :: u64
  service_period_ns :: u32
  service_budget_ns :: u32

record register_worker =
  rw_service_token :: u64
  ptr_worker_id :: uaddr

record request_params =
  blocking :: u32
  rp_request_shm_mode :: u32
  ptr_response_shm_mode :: uaddr
  status :: u32
  rp_abs_deadline_ns :: u64
  ptr_token :: uaddr
  rp_request_len :: u32
  ptr_response_len :: uaddr
  rp_request :: u64
  ptr_response :: uaddr
  ptr_shm_response_key :: uaddr

record start_job =
  sj_worker_id :: u32
  sj_service_token :: u64
  ptr_request_len :: uaddr
  ptr_request_shm_mode :: uaddr
  sj_data :: uaddr

record end_job =
  ej_worker_id :: u32
  ej_service_token :: u64
  ej_response_len :: u32
  ej_response_shm_mode :: u32
  ej_response :: u64

record linber_service_struct =
  service_uri_ptr :: uaddr
  service_uri_len :: u32
  op_registration :: registration
  op_register_worker :: register_worker
  op_request :: request_params
  op_start_job :: start_job
  op_end_job :: end_job
  ds_service_token :: u64

record service_status =
  st_uri :: uaddr
  uri_len :: u32
  requests_count :: u32
  st_Max_Working :: u32
  exec_time_ms :: u64
  budget_ms :: u32
  period_ms :: u32

record system_status =
  sys_Max_Working :: u32
  services_count :: u32
  services :: uaddr

text \<open>
  A cell of user memory: a number, a byte buffer, or one of the structures an ioctl
  passes. An address that is not mapped faults on access.
\<close>

datatype uval = UInt u32 | ULong u64 | UBytes bytes | UParams linber_service_struct
  | USystem system_status | UServices "service_status list"


section \<open>The state of the module\<close>

record kstate =
  Services_rbtree :: ser_root
  Services :: "addr list"
  Services_count :: u32
  lin_Request_count :: u32
  Max_Working :: u32
  linber_mutex :: bool
  sers :: "addr \<rightharpoonup> ServiceNode"
  reqs :: "addr \<rightharpoonup> RequestNode"
  bufs :: "addr \<rightharpoonup> bytes"
  umem :: "uaddr \<rightharpoonup> uval"
  sched :: "pid \<rightharpoonup> sched_attr"

text \<open>
  What a call gets from the kernel: the calling task, the red-black tree functions, the
  result of each allocation (the address and the garbage that is there), the random
  token, the clock and the verdict of sched_setattr.
\<close>

record env =
  current :: pid
  rb_reqs :: req_ops
  rb_sers :: ser_ops
  kmalloc_param :: bool
  kmalloc_uri :: bool
  kmalloc_request :: "(addr \<times> RequestNode) option"
  kmalloc_service :: "(addr \<times> ServiceNode) option"
  kmalloc_slots :: bool
  kmalloc_container :: bool
  kmalloc_buffer :: "u32 \<Rightarrow> (addr \<times> bytes) option"
  kmalloc_status :: bool
  get_random_bytes :: u64
  ktime_get :: u64
  sched_setattr :: "sched_attr \<Rightarrow> int"


section \<open>Memory access\<close>

definition load_ser :: "addr \<Rightarrow> kstate \<Rightarrow> fault + ServiceNode" where
  [steps]: "load_ser a s = (case sers s a of None \<Rightarrow> Inl Use_after_free | Some n \<Rightarrow> Inr n)"

definition modify_ser :: "addr \<Rightarrow> (ServiceNode \<Rightarrow> ServiceNode) \<Rightarrow> kstate \<Rightarrow> fault + kstate" where
  [steps]: "modify_ser a f s =
     bnd (load_ser a s) (\<lambda>n. Inr (s\<lparr>sers := (sers s)(a \<mapsto> f n)\<rparr>))"

definition load_req :: "addr \<Rightarrow> kstate \<Rightarrow> fault + RequestNode" where
  [steps]: "load_req a s = (case reqs s a of None \<Rightarrow> Inl Use_after_free | Some r \<Rightarrow> Inr r)"

definition modify_req :: "addr \<Rightarrow> (RequestNode \<Rightarrow> RequestNode) \<Rightarrow> kstate \<Rightarrow> fault + kstate" where
  [steps]: "modify_req a f s =
     bnd (load_req a s) (\<lambda>r. Inr (s\<lparr>reqs := (reqs s)(a \<mapsto> f r)\<rparr>))"

text \<open>Reading and freeing a payload buffer; kfree of anything else is a wild pointer.\<close>

definition load_buf :: "addr \<Rightarrow> kstate \<Rightarrow> fault + bytes" where
  [steps]: "load_buf a s = (case bufs s a of None \<Rightarrow> Inl Wild_pointer | Some b \<Rightarrow> Inr b)"

definition kfree_buf :: "addr \<Rightarrow> kstate \<Rightarrow> fault + kstate" where
  [steps]: "kfree_buf a s = bnd (load_buf a s) (\<lambda>_. Inr (s\<lparr>bufs := (bufs s)(a := None)\<rparr>))"

definition kfree_req :: "addr \<Rightarrow> kstate \<Rightarrow> fault + kstate" where
  [steps]: "kfree_req a s = bnd (load_req a s) (\<lambda>_. Inr (s\<lparr>reqs := (reqs s)(a := None)\<rparr>))"

text \<open>The token of the request at an address, for the list searches.\<close>

definition token_at :: "kstate \<Rightarrow> addr \<Rightarrow> u64 option" where
  "token_at s a = map_option token (reqs s a)"


section \<open>Mutexes and semaphores\<close>

text \<open>
  Between two blocking points a call runs without interleaving, so a mutex that is found
  locked was left locked by a call that has ended, and nobody will unlock it.
\<close>

definition mutex_lock_linber :: "kstate \<Rightarrow> fault + kstate" where
  [steps]: "mutex_lock_linber s =
     (if linber_mutex s then Inl Deadlock else Inr (s\<lparr>linber_mutex := True\<rparr>))"

definition mutex_unlock_linber :: "kstate \<Rightarrow> kstate" where
  [steps]: "mutex_unlock_linber s = s\<lparr>linber_mutex := False\<rparr>"

definition mutex_lock_ser :: "addr \<Rightarrow> kstate \<Rightarrow> fault + kstate" where
  [steps]: "mutex_lock_ser a s =
     bnd (load_ser a s) (\<lambda>n.
       if service_mutex n then Inl Deadlock
       else modify_ser a (\<lambda>n. n\<lparr>service_mutex := True\<rparr>) s)"

definition mutex_unlock_ser :: "addr \<Rightarrow> kstate \<Rightarrow> fault + kstate" where
  [steps]: "mutex_unlock_ser a s = modify_ser a (\<lambda>n. n\<lparr>service_mutex := False\<rparr>) s"

definition up_request :: "addr \<Rightarrow> kstate \<Rightarrow> fault + kstate" where
  [steps]: "up_request a s = modify_req a (\<lambda>r. r\<lparr>Request_sem := Suc (Request_sem r)\<rparr>) s"

definition up_service :: "addr \<Rightarrow> kstate \<Rightarrow> fault + kstate" where
  [steps]: "up_service a s = modify_ser a (\<lambda>n. n\<lparr>sem_for_request := Suc (sem_for_request n)\<rparr>) s"

text \<open>
  down_interruptible: with a positive count the caller takes one and goes on. With count
  zero it waits (None), unless a signal arrives, which lets it go on without taking
  anything; the callers ignore the return value.
\<close>

definition down_request :: "bool \<Rightarrow> addr \<Rightarrow> kstate \<Rightarrow> fault + kstate option" where
  [steps]: "down_request signal a s =
     bnd (load_req a s) (\<lambda>r.
       if 0 < Request_sem r
       then bnd (modify_req a (\<lambda>r. r\<lparr>Request_sem := Request_sem r - 1\<rparr>) s) (\<lambda>s. Inr (Some s))
       else Inr (if signal then Some s else None))"

definition down_service :: "bool \<Rightarrow> addr \<Rightarrow> kstate \<Rightarrow> fault + kstate option" where
  [steps]: "down_service signal a s =
     bnd (load_ser a s) (\<lambda>n.
       if 0 < sem_for_request n
       then bnd (modify_ser a (\<lambda>n. n\<lparr>sem_for_request := sem_for_request n - 1\<rparr>) s)
              (\<lambda>s. Inr (Some s))
       else Inr (if signal then Some s else None))"


section \<open>Access to user memory\<close>

text \<open>
  None is the failure of the access. A failed copy leaves user memory as it was.
\<close>

definition put_user :: "uval \<Rightarrow> uaddr \<Rightarrow> kstate \<Rightarrow> kstate option" where
  [steps]: "put_user v p s =
     (if umem s p = None then None else Some (s\<lparr>umem := (umem s)(p \<mapsto> v)\<rparr>))"

definition get_user_long :: "uaddr \<Rightarrow> kstate \<Rightarrow> u64 option" where
  [steps]: "get_user_long p s = (case umem s p of Some (ULong v) \<Rightarrow> Some v | _ \<Rightarrow> None)"

definition copy_from_user :: "uaddr \<Rightarrow> nat \<Rightarrow> kstate \<Rightarrow> bytes option" where
  [steps]: "copy_from_user p n s =
     (case umem s p of
        Some (UBytes b) \<Rightarrow> if n \<le> length b then Some (take n b) else None
      | _ \<Rightarrow> None)"

definition copy_to_user :: "uaddr \<Rightarrow> bytes \<Rightarrow> kstate \<Rightarrow> kstate option" where
  [steps]: "copy_to_user p src s =
     (case umem s p of
        Some (UBytes b) \<Rightarrow>
          if length src \<le> length b
          then Some (s\<lparr>umem := (umem s)(p \<mapsto> UBytes (src @ drop (length src) b))\<rparr>) else None
      | _ \<Rightarrow> None)"

text \<open>
  How far a call has got: it has returned a value, or it waits on a semaphore. A client
  waits on its request after queueing it (Wait_init) or when it asks for the response
  (Wait_response); a worker waits in a service for a request (Wait_job, with its worker
  id).
\<close>

datatype progress = Done int | Wait_init addr | Wait_response addr | Wait_job addr u32

type_synonym outcome = "fault + progress \<times> kstate"

text \<open>
  CHECK_MEMORY_ERROR and CHECK_KMALLOC_ERROR: a failed access or allocation makes the
  handler return at once, in the state s it has reached.
\<close>

definition CHECK_MEMORY_ERROR :: "'a option \<Rightarrow> kstate \<Rightarrow> ('a \<Rightarrow> outcome) \<Rightarrow> outcome" where
  [steps]: "CHECK_MEMORY_ERROR access s k =
     (case access of None \<Rightarrow> Inr (Done LINBER_USER_MEMORY_ERROR, s) | Some x \<Rightarrow> k x)"

definition CHECK_KMALLOC_ERROR :: "'a option \<Rightarrow> kstate \<Rightarrow> ('a \<Rightarrow> outcome) \<Rightarrow> outcome" where
  [steps]: "CHECK_KMALLOC_ERROR ptr s k =
     (case ptr of None \<Rightarrow> Inr (Done LINBER_KERNEL_MEMORY_ERROR, s) | Some x \<Rightarrow> k x)"

lemma ends_in_CHECK_MEMORY_ERROR [simp]:
  "ends_in (CHECK_MEMORY_ERROR access s k) F Q \<longleftrightarrow>
    (case access of None \<Rightarrow> Q (Done LINBER_USER_MEMORY_ERROR, s) | Some x \<Rightarrow> ends_in (k x) F Q)"
  by (simp add: CHECK_MEMORY_ERROR_def split: option.split)

lemma ends_in_CHECK_KMALLOC_ERROR [simp]:
  "ends_in (CHECK_KMALLOC_ERROR ptr s k) F Q \<longleftrightarrow>
    (case ptr of None \<Rightarrow> Q (Done LINBER_KERNEL_MEMORY_ERROR, s) | Some x \<Rightarrow> ends_in (k x) F Q)"
  by (simp add: CHECK_KMALLOC_ERROR_def split: option.split)

end
