(* ===== verification/Requests.thy ===== *)
theory Requests
  imports Linber_State
begin

text \<open>
  Creating, queueing, finding and aborting requests (driver/linber_main.c, from
  create_Request to enqueue_request_for_service).
\<close>

section \<open>Operations\<close>

definition create_Request :: "env \<Rightarrow> kstate \<Rightarrow> addr option \<times> kstate" where
  "create_Request env s =
     (case kmalloc_request env of
        None \<Rightarrow> (None, s)
      | Some (a, garbage) \<Rightarrow>
          (Some a, s\<lparr>reqs := (reqs s)(a \<mapsto>
             garbage\<lparr>result_cmd := LINBER_ABORT_REQUEST, Request_sem := 0\<rparr>)\<rparr>))"

definition destroy_request :: "addr \<Rightarrow> kstate \<Rightarrow> fault + kstate" where
  "destroy_request a s =
     bnd (modify_req a (\<lambda>r. r\<lparr>result_cmd := LINBER_ABORT_REQUEST\<rparr>) s) (up_request a)"

text \<open>
  get_Completed_Request leaves the loop variable on the list head when no request has the
  token: the pointer it returns is then not NULL and not a request (Head_entry).
\<close>

datatype list_cursor = Entry addr | Head_entry

definition get_Completed_Request ::
    "addr \<Rightarrow> u64 \<Rightarrow> kstate \<Rightarrow> fault + list_cursor \<times> kstate" where
  "get_Completed_Request sn tok s =
     bnd (mutex_lock_ser sn s) (\<lambda>s.
     bnd (load_ser sn s) (\<lambda>ser.
     bnd (find_token (token_at s) tok (Completed_RequestsHead ser)) (\<lambda>found.
     case found of
       None \<Rightarrow> bnd (mutex_unlock_ser sn s) (\<lambda>s. Inr (Head_entry, s))
     | Some a \<Rightarrow>
         bnd (modify_ser sn (\<lambda>n. n\<lparr>Completed_RequestsHead :=
                remove1 a (Completed_RequestsHead n)\<rparr>) s) (\<lambda>s.
         bnd (mutex_unlock_ser sn s) (\<lambda>s. Inr (Entry a, s))))))"

definition get_request :: "env \<Rightarrow> addr \<Rightarrow> kstate \<Rightarrow> fault + addr option \<times> kstate" where
  "get_request env sn s =
     bnd (load_ser sn s) (\<lambda>ser.
     let (req_node, root) = Remove_first_request (rb_reqs env) (Requests_rbtree ser) in
     bnd (modify_ser sn (\<lambda>n. n\<lparr>Requests_rbtree := root\<rparr>) s) (\<lambda>s.
     case req_node of
       None \<Rightarrow> Inr (None, s)
     | Some a \<Rightarrow>
         bnd (modify_ser sn (\<lambda>n. n\<lparr>Request_count := Request_count n - 1\<rparr>) s)
           (\<lambda>s. Inr (Some a, s))))"

fun find_serving :: "(addr \<Rightarrow> u64 option) \<Rightarrow> u64 \<Rightarrow> worker_struct list \<Rightarrow> fault + addr option" where
  "find_serving tok wanted [] = Inr None"
| "find_serving tok wanted (w # ws) =
     (case serving w of
        None \<Rightarrow> find_serving tok wanted ws
      | Some a \<Rightarrow>
          (case tok a of
             None \<Rightarrow> Inl Use_after_free
           | Some t \<Rightarrow> if t = wanted then Inr (Some a) else find_serving tok wanted ws))"

definition find_Waiting_or_Completed_Request ::
    "addr \<Rightarrow> u64 \<Rightarrow> u64 \<Rightarrow> kstate \<Rightarrow> fault + addr option \<times> kstate" where
  "find_Waiting_or_Completed_Request sn deadline tok s =
     bnd (mutex_lock_ser sn s) (\<lambda>s.
     bnd (load_ser sn s) (\<lambda>ser.
     bnd (case RBtree_get_request (token_at s) (Requests_rbtree ser) deadline tok of
            None \<Rightarrow> Inl Spin | Some r \<Rightarrow> r) (\<lambda>in_tree.
     bnd (case in_tree of
            Some a \<Rightarrow> Inr (Some a)
          | None \<Rightarrow> find_serving (token_at s) tok (worker_slots ser)) (\<lambda>in_slot.
     bnd (case in_slot of
            Some a \<Rightarrow> Inr (Some a)
          | None \<Rightarrow> find_token (token_at s) tok (Completed_RequestsHead ser)) (\<lambda>req_node.
     bnd (mutex_unlock_ser sn s) (\<lambda>s. Inr (req_node, s)))))))"

text \<open>
  The fields set by enqueue_request_for_service before the request is queued. The
  blocking wait at the end of the C function is the caller's Wait_init.
\<close>

definition fill_request ::
    "pid \<Rightarrow> u64 \<Rightarrow> u64 \<Rightarrow> bool \<Rightarrow> key_t \<Rightarrow> addr \<Rightarrow> u32 \<Rightarrow> RequestNode \<Rightarrow> RequestNode" where
  "fill_request cur tok deadline shm_mode req_key buffer len r =
     (let r = r\<lparr>client := cur, token := tok, abs_deadline_ns := deadline\<rparr>;
          r = (if shm_mode
               then r\<lparr>request_shm_mode := True, request := set_shm_key req_key (request r)\<rparr>
               else r\<lparr>request_shm_mode := False, request := buffer\<rparr>)
      in r\<lparr>request_len := len\<rparr>)"

definition enqueue_request_for_service ::
    "env \<Rightarrow> addr \<Rightarrow> addr \<Rightarrow> u32 \<Rightarrow> bool \<Rightarrow> key_t \<Rightarrow> u64 \<Rightarrow> kstate \<Rightarrow> fault + addr option \<times> kstate"
where
  "enqueue_request_for_service env sn buffer len shm_mode req_key deadline s =
     (let (req_node, s) = create_Request env s in
      case req_node of
        None \<Rightarrow> Inr (None, s)
      | Some a \<Rightarrow>
          bnd (load_ser sn s) (\<lambda>ser.
          bnd (modify_ser sn (\<lambda>n. n\<lparr>next_req_token := next_req_token n + 1\<rparr>) s) (\<lambda>s.
          bnd (modify_req a (fill_request (current env) (next_req_token ser) deadline shm_mode
                 req_key buffer len) s) (\<lambda>s.
          bnd (mutex_lock_ser sn s) (\<lambda>s.
          let (inserted, root) = Insert_ReqNode_Sorted_by_Deadline (rb_reqs env)
                (kmalloc_container env) deadline a (Requests_rbtree ser) in
          if \<not> inserted then
            bnd (mutex_unlock_ser sn s) (\<lambda>s.
            bnd (destroy_request a s) (\<lambda>s. Inr (None, s)))
          else
            bnd (modify_ser sn (\<lambda>n. n\<lparr>Requests_rbtree := root,
                   Request_count := Request_count n + 1\<rparr>) s) (\<lambda>s.
            bnd (mutex_unlock_ser sn s) (\<lambda>s.
            bnd (up_service sn s) (\<lambda>s. Inr (Some a, s)))))))))"

end
