(* ===== verification/Workers.thy ===== *)
theory Workers
  imports Service_Life
begin

text \<open>
  The workers of a service (driver/linber_main.c, from decrease_workers to
  Dispatch_as_RealTime): checking who calls, waiting for a request, handing the finished
  request over, and the scheduling policy of the serving task.
\<close>

section \<open>Operations\<close>

definition decrease_workers :: "addr \<Rightarrow> kstate \<Rightarrow> fault + kstate" where
  "decrease_workers sn s =
     bnd (mutex_lock_ser sn s) (\<lambda>s.
     bnd (modify_ser sn (\<lambda>n. n\<lparr>count_registered := count_registered n - 1\<rparr>) s) (\<lambda>s.
     mutex_unlock_ser sn s))"

text \<open>
  The slot of a worker id, where the calling task is the registered one. The slot of an
  id below Max_Workers that no worker has registered has a NULL task.
\<close>

definition get_worker_by_id :: "env \<Rightarrow> ServiceNode \<Rightarrow> u32 \<Rightarrow> fault + nat option" where
  "get_worker_by_id env ser worker_id =
     (if worker_id < Max_Workers ser then
        (if length (worker_slots ser) \<le> unat worker_id then Inl Wild_pointer
         else case task (worker_slots ser ! unat worker_id) of
             None \<Rightarrow> Inl Null_deref
           | Some pid \<Rightarrow> Inr (if pid \<noteq> current env then None else Some (unat worker_id)))
      else Inr None)"

definition Service_check_Worker :: "ServiceNode \<Rightarrow> u64 \<Rightarrow> u32 \<Rightarrow> bool" where
  "Service_check_Worker ser service_token worker_id \<longleftrightarrow>
     0 \<le> sint worker_id \<and> worker_id < Max_Workers ser \<and> ser_token ser = service_token"

definition Service_check_alive :: "env \<Rightarrow> addr \<Rightarrow> kstate \<Rightarrow> fault + bool \<times> kstate" where
  "Service_check_alive env sn s =
     bnd (mutex_lock_ser sn s) (\<lambda>s.
     bnd (load_ser sn s) (\<lambda>ser.
     if destroy_me ser then
       bnd (modify_ser sn (\<lambda>n. n\<lparr>count_registered := count_registered n - 1\<rparr>) s) (\<lambda>s.
       bnd (load_ser sn s) (\<lambda>ser.
       if count_registered ser \<le> 0 then bnd (clean_service env sn s) (\<lambda>s. Inr (False, s))
       else bnd (mutex_unlock_ser sn s) (\<lambda>s. Inr (False, s))))
     else bnd (mutex_unlock_ser sn s) (\<lambda>s. Inr (True, s))))"

definition set_serving :: "addr \<Rightarrow> nat \<Rightarrow> addr option \<Rightarrow> kstate \<Rightarrow> fault + kstate" where
  [steps]: "set_serving sn i r s =
     modify_ser sn (\<lambda>n. n\<lparr>worker_slots :=
       (worker_slots n)[i := (worker_slots n ! i)\<lparr>serving := r\<rparr>]\<rparr>) s"

text \<open>
  worker_wait_for_request up to the wait on sem_for_request; the result is the slot to
  wait with, or None where the function returns NULL at once. A request that is still in
  the slot was started and never ended: its client is woken.
\<close>

definition worker_wait_for_request :: "env \<Rightarrow> addr \<Rightarrow> u32 \<Rightarrow> kstate \<Rightarrow> fault + nat option \<times> kstate"
where
  "worker_wait_for_request env sn worker_id s =
     bnd (load_ser sn s) (\<lambda>ser.
     bnd (get_worker_by_id env ser worker_id) (\<lambda>worker.
     case worker of
       None \<Rightarrow> Inr (None, s)
     | Some i \<Rightarrow>
         (case serving (worker_slots ser ! i) of
            None \<Rightarrow> Inr (Some i, s)
          | Some a \<Rightarrow>
              bnd (up_request a s) (\<lambda>s.
              bnd (set_serving sn i None s) (\<lambda>s. Inr (Some i, s))))))"

text \<open>worker_wait_for_request from the return of the wait on.\<close>

definition worker_woken :: "env \<Rightarrow> addr \<Rightarrow> nat \<Rightarrow> kstate \<Rightarrow> fault + addr option \<times> kstate" where
  "worker_woken env sn i s =
     bnd (Service_check_alive env sn s) (\<lambda>(alive, s).
     if alive then
       bnd (mutex_lock_ser sn s) (\<lambda>s.
       bnd (get_request env sn s) (\<lambda>(req_node, s).
       bnd (case req_node of
              None \<Rightarrow> Inr s
            | Some a \<Rightarrow> set_serving sn i (Some a) s) (\<lambda>s.
       bnd (mutex_unlock_ser sn s) (\<lambda>s. Inr (req_node, s)))))
     else Inr (None, s))"

definition worker_get_request :: "env \<Rightarrow> ServiceNode \<Rightarrow> u32 \<Rightarrow> fault + addr option" where
  "worker_get_request env ser worker_id =
     bnd (get_worker_by_id env ser worker_id) (\<lambda>worker.
     case worker of None \<Rightarrow> Inr None | Some i \<Rightarrow> Inr (serving (worker_slots ser ! i)))"

definition move_from_worker_to_completed :: "env \<Rightarrow> addr \<Rightarrow> u32 \<Rightarrow> kstate \<Rightarrow> fault + kstate" where
  "move_from_worker_to_completed env sn worker_id s =
     bnd (mutex_lock_ser sn s) (\<lambda>s.
     bnd (load_ser sn s) (\<lambda>ser.
     bnd (get_worker_by_id env ser worker_id) (\<lambda>worker.
     bnd (case worker of
            None \<Rightarrow> Inr (None, s)
          | Some i \<Rightarrow>
              let req_node = serving (worker_slots ser ! i) in
              bnd (set_serving sn i None s) (\<lambda>s.
              case req_node of
                None \<Rightarrow> Inr (None, s)
              | Some a \<Rightarrow>
                  bnd (modify_ser sn (\<lambda>n. n\<lparr>Completed_RequestsHead :=
                         Completed_RequestsHead n @ [a]\<rparr>) s) (\<lambda>s. Inr (Some a, s))))
       (\<lambda>(req_node, s).
     bnd (mutex_unlock_ser sn s) (\<lambda>s.
     case req_node of None \<Rightarrow> Inl Null_deref | Some a \<Rightarrow> up_request a s)))))"


section \<open>Scheduling\<close>

text \<open>Policy and flag numbers of uapi/linux/sched.h.\<close>

definition SCHED_FIFO :: u32 where [codes]: "SCHED_FIFO = 1"
definition SCHED_DEADLINE :: u32 where [codes]: "SCHED_DEADLINE = 6"
definition SCHED_FLAG_RESET_ON_FORK :: u64 where [codes]: "SCHED_FLAG_RESET_ON_FORK = 1"

definition apply_sched :: "env \<Rightarrow> sched_attr \<Rightarrow> kstate \<Rightarrow> int \<times> kstate" where
  "apply_sched env attr s =
     (let res = sched_setattr env attr
      in (res, if res < 0 then s else s\<lparr>sched := (sched s)(current env \<mapsto> attr)\<rparr>))"

definition best_effort_attr :: sched_attr where
  "best_effort_attr = \<lparr>attr_size = 48, sched_policy = SCHED_FIFO,
     sched_flags = SCHED_FLAG_RESET_ON_FORK, sched_nice = 0, sched_priority = 99,
     sched_runtime = 0, sched_deadline = 0, sched_period = 0\<rparr>"

definition Dispatch_as_BestEffort :: "env \<Rightarrow> kstate \<Rightarrow> kstate" where
  "Dispatch_as_BestEffort env s = snd (apply_sched env best_effort_attr s)"

definition real_time_attr :: "u64 \<Rightarrow> u64 \<Rightarrow> u64 \<Rightarrow> sched_attr" where
  "real_time_attr runtime_ns period_ns rel_deadline_ns =
     \<lparr>attr_size = 48, sched_policy = SCHED_DEADLINE, sched_flags = 0, sched_nice = 0,
      sched_priority = 0, sched_runtime = runtime_ns, sched_deadline = rel_deadline_ns,
      sched_period = period_ns\<rparr>"

definition Dispatch_as_RealTime :: "env \<Rightarrow> u64 \<Rightarrow> u64 \<Rightarrow> u64 \<Rightarrow> kstate \<Rightarrow> int \<times> kstate" where
  "Dispatch_as_RealTime env runtime_ns period_ns rel_deadline_ns s =
     apply_sched env (real_time_attr runtime_ns period_ns rel_deadline_ns) s"

text \<open>
  The policy linber_Start_Job gives the serving task: the relative deadline is the
  difference of two 64-bit numbers kept in an int.
\<close>

definition rel_deadline :: "u64 \<Rightarrow> u64 \<Rightarrow> u32" where
  "rel_deadline deadline now = ucast (deadline - now)"

definition dispatch_policy :: "env \<Rightarrow> ServiceNode \<Rightarrow> u64 \<Rightarrow> kstate \<Rightarrow> kstate" where
  "dispatch_policy env ser deadline s =
     (if deadline = - 1 then Dispatch_as_BestEffort env s
      else
        let rel = rel_deadline deadline (ktime_get env) in
        if sint rel \<le> 0 then Dispatch_as_BestEffort env s
        else
          let rel = (if rel > period ser then period ser else rel);
              (res, s) = Dispatch_as_RealTime env (ucast (budget ser)) (ucast (period ser))
                           (scast rel) s
          in if res < 0 then Dispatch_as_BestEffort env s else s)"

end
