(* ===== verification/Handlers.thy ===== *)
theory Handlers
  imports Workers
begin

text \<open>
  The operations a process reaches through ioctl (driver/linber_main.c, from
  linber_register_service to linber_ioctl), and loading and unloading the module. findService
  gives up its mutex: what a handler does after it, with the service it found (None is NULL),
  is a definition of its own with the suffix _found. A call that waits on a semaphore is split
  there too: the first part ends in a Wait_ value and the part after the wait is a definition.
\<close>

section \<open>Services and clients\<close>

definition linber_register_service_found :: "env \<Rightarrow> bytes \<Rightarrow> registration \<Rightarrow> addr option \<Rightarrow> kstate \<Rightarrow> outcome" where
  "linber_register_service_found env u reg ser_node s =
     (case ser_node of
       None \<Rightarrow>
         bnd (create_service env u reg s) (\<lambda>(ser_node, s).
         case ser_node of
           None \<Rightarrow> Inr (Done LINBER_SERVICE_REGISTRATION_FAIL, s)
         | Some sn \<Rightarrow>
             bnd (load_ser sn s) (\<lambda>ser.
             CHECK_MEMORY_ERROR (put_user (ULong (ser_token ser)) (ptr_service_token reg) s) s (\<lambda>s.
             Inr (Done LINBER_SERVICE_REGISTRATION_SUCCESS, s))))
     | Some _ \<Rightarrow> Inr (Done LINBER_SERVICE_REGISTRATION_ALREADY_EXISTS, s))"

definition linber_register_service :: "env \<Rightarrow> bytes \<Rightarrow> registration \<Rightarrow> kstate \<Rightarrow> outcome" where
  "linber_register_service env u reg s =
     bnd (findService u s) (\<lambda>(ser_node, s). linber_register_service_found env u reg ser_node s)"

text \<open>The phase COMPLETED of linber_request_service, for a request that is not NULL.\<close>

definition flag_cell :: "bool \<Rightarrow> uval" where
  "flag_cell b = UInt (if b then 1 else 0)"

definition request_completed :: "request_params \<Rightarrow> addr \<Rightarrow> kstate \<Rightarrow> outcome" where
  "request_completed rp a s =
     bnd (load_req a s) (\<lambda>r.
     let ret = result_cmd r in
     if ret = LINBER_REQUEST_SUCCESS then
       CHECK_MEMORY_ERROR (put_user (UInt (response_len r)) (ptr_response_len rp) s) s (\<lambda>s.
       CHECK_MEMORY_ERROR (put_user (flag_cell (response_shm_mode r)) (ptr_response_shm_mode rp) s) s
         (\<lambda>s.
       if response_shm_mode r then
         CHECK_MEMORY_ERROR (put_user (UInt (shm_key (response r))) (ptr_shm_response_key rp) s) s
           (\<lambda>s. Inr (Done ret, s))
       else Inr (Done ret, s)))
     else Inr (Done ret, s))"

text \<open>After the queueing: the token goes to the client, and a blocking call completes.\<close>

definition request_queued :: "request_params \<Rightarrow> bool \<Rightarrow> addr \<Rightarrow> kstate \<Rightarrow> outcome" where
  "request_queued rp is_blocking a s =
     bnd (load_req a s) (\<lambda>r.
     CHECK_MEMORY_ERROR (put_user (ULong (token r)) (ptr_token rp) s) s (\<lambda>s.
     if \<not> is_blocking then Inr (Done LINBER_REQUEST_WAITING, s)
     else request_completed rp a s))"

definition enqueue_and_wait ::
    "env \<Rightarrow> addr \<Rightarrow> request_params \<Rightarrow> addr \<Rightarrow> key_t \<Rightarrow> kstate \<Rightarrow> outcome" where
  "enqueue_and_wait env sn rp buffer req_key s =
     bnd (enqueue_request_for_service env sn buffer (rp_request_len rp)
            (rp_request_shm_mode rp = 1) req_key (rp_abs_deadline_ns rp) s) (\<lambda>(req_node, s).
     case req_node of
       None \<Rightarrow> Inr (Done LINBER_REQUEST_FAILED, s)
     | Some a \<Rightarrow>
         if blocking rp = 1 then Inr (Wait_init a, s)
         else request_queued rp False a s)"

definition linber_request_service_found :: "env \<Rightarrow> request_params \<Rightarrow> addr option \<Rightarrow> kstate \<Rightarrow> outcome" where
  "linber_request_service_found env rp ser_node s =
     (case ser_node of
       None \<Rightarrow> Inr (Done LINBER_SERVICE_NOT_EXISTS, s)
     | Some sn \<Rightarrow>
         bnd (load_ser sn s) (\<lambda>ser.
         if destroy_me ser then Inr (Done LINBER_SERVICE_NOT_EXISTS, s)
         else if sint (status rp) = LINBER_REQUEST_INIT then
           (if rp_request_shm_mode rp \<noteq> 1 then
              (if rp_request_len rp > LINBER_MAX_MEM_SIZE
               then Inr (Done LINBER_PAYLOAD_SIZE_ERROR, s)
               else
                 CHECK_KMALLOC_ERROR (kmalloc_buffer env (rp_request_len rp)) s (\<lambda>(buffer, garbage).
                 let s = s\<lparr>bufs := (bufs s)(buffer \<mapsto> garbage)\<rparr> in
                 CHECK_MEMORY_ERROR (copy_from_user (rp_request rp) (unat (rp_request_len rp)) s)
                   s (\<lambda>data.
                 enqueue_and_wait env sn rp buffer 0 (s\<lparr>bufs := (bufs s)(buffer \<mapsto> data)\<rparr>))))
            else enqueue_and_wait env sn rp 0 (shm_key (rp_request rp)) s)
         else if sint (status rp) = LINBER_REQUEST_WAITING then
           CHECK_MEMORY_ERROR (get_user_long (ptr_token rp) s) s (\<lambda>tok.
           bnd (find_Waiting_or_Completed_Request sn (rp_abs_deadline_ns rp) tok s)
             (\<lambda>(req_node, s).
           case req_node of
             None \<Rightarrow> Inr (Done LINBER_REQUEST_FAILED, s)
           | Some a \<Rightarrow>
               bnd (load_req a s) (\<lambda>r.
               if client r \<noteq> current env then Inr (Done LINBER_REQUEST_FAILED, s)
               else Inr (Wait_response a, s))))
         else Inr (Done LINBER_REQUEST_FAILED, s)))"

definition linber_request_service :: "env \<Rightarrow> bytes \<Rightarrow> request_params \<Rightarrow> kstate \<Rightarrow> outcome" where
  "linber_request_service env u rp s =
     bnd (findService u s) (\<lambda>(ser_node, s). linber_request_service_found env rp ser_node s)"

definition linber_request_service_get_response_found :: "env \<Rightarrow> request_params \<Rightarrow> addr option \<Rightarrow> kstate \<Rightarrow> outcome" where
  "linber_request_service_get_response_found env rp ser_node s =
     (case ser_node of
       None \<Rightarrow> Inr (Done LINBER_SERVICE_NOT_EXISTS, s)
     | Some sn \<Rightarrow>
         bnd (load_ser sn s) (\<lambda>ser.
         if destroy_me ser then Inr (Done LINBER_SERVICE_NOT_EXISTS, s)
         else
           CHECK_MEMORY_ERROR (get_user_long (ptr_token rp) s) s (\<lambda>tok.
           bnd (get_Completed_Request sn tok s) (\<lambda>(req_node, s).
           case req_node of
             Head_entry \<Rightarrow> Inl Wild_pointer
           | Entry a \<Rightarrow>
               bnd (load_req a s) (\<lambda>r.
               let ret = result_cmd r;
                   finish = (\<lambda>s.
                     bnd (if request_shm_mode r then Inr s else kfree_buf (request r) s) (\<lambda>s.
                     bnd (kfree_req a s) (\<lambda>s. Inr (Done ret, s))))
               in if response_shm_mode r then finish s
                  else
                    bnd (load_buf (response r) s) (\<lambda>data.
                    CHECK_MEMORY_ERROR
                      (copy_to_user (ptr_response rp) (take (unat (response_len r)) data) s) s (\<lambda>s.
                    bnd (kfree_buf (response r) s) finish)))))))"

definition linber_request_service_get_response :: "env \<Rightarrow> bytes \<Rightarrow> request_params \<Rightarrow> kstate \<Rightarrow> outcome" where
  "linber_request_service_get_response env u rp s =
     bnd (findService u s) (\<lambda>(ser_node, s). linber_request_service_get_response_found env rp ser_node s)"


section \<open>Workers\<close>

definition linber_register_service_worker_found :: "env \<Rightarrow> register_worker \<Rightarrow> addr option \<Rightarrow> kstate \<Rightarrow> outcome" where
  "linber_register_service_worker_found env rw ser_node s =
     (case ser_node of
       None \<Rightarrow> Inr (Done (- 1), s)
     | Some sn \<Rightarrow>
         bnd (load_ser sn s) (\<lambda>ser.
         if \<not> Service_check_Worker ser (rw_service_token rw) 0 then Inr (Done (- 1), s)
         else if next_id ser < Max_Workers ser then
           bnd (mutex_lock_ser sn s) (\<lambda>s.
           bnd (modify_ser sn (\<lambda>n. n\<lparr>count_registered := count_registered n + 1\<rparr>) s) (\<lambda>s.
           let worker_id = next_id ser in
           bnd (modify_ser sn (\<lambda>n. n\<lparr>next_id := next_id n + 1\<rparr>) s) (\<lambda>s.
           bnd (mutex_unlock_ser sn s) (\<lambda>s.
           bnd (modify_ser sn (\<lambda>n. n\<lparr>worker_slots := (worker_slots n)[unat worker_id :=
                  (worker_slots n ! unat worker_id)\<lparr>task := Some (current env)\<rparr>]\<rparr>) s) (\<lambda>s.
           CHECK_MEMORY_ERROR (put_user (UInt worker_id) (ptr_worker_id rw) s) s (\<lambda>s.
           Inr (Done 0, Dispatch_as_BestEffort env s)))))))
         else Inr (Done 0, s)))"

definition linber_register_service_worker :: "env \<Rightarrow> bytes \<Rightarrow> register_worker \<Rightarrow> kstate \<Rightarrow> outcome" where
  "linber_register_service_worker env u rw s =
     bnd (findService u s) (\<lambda>(ser_node, s). linber_register_service_worker_found env rw ser_node s)"

definition linber_Start_Job_found :: "env \<Rightarrow> start_job \<Rightarrow> addr option \<Rightarrow> kstate \<Rightarrow> outcome" where
  "linber_Start_Job_found env sj ser_node s =
     (case ser_node of
       None \<Rightarrow> Inr (Done LINBER_SERVICE_NOT_EXISTS, s)
     | Some sn \<Rightarrow>
         bnd (load_ser sn s) (\<lambda>ser.
         if \<not> Service_check_Worker ser (sj_service_token sj) (sj_worker_id sj) then
           bnd (decrease_workers sn s) (\<lambda>s. Inr (Done LINBER_KILL_WORKER, s))
         else
           bnd (worker_wait_for_request env sn (sj_worker_id sj) s) (\<lambda>(worker, s).
           case worker of
             None \<Rightarrow> Inr (Done LINBER_SERVICE_SKIP_JOB, s)
           | Some i \<Rightarrow> Inr (Wait_job sn (sj_worker_id sj), s))))"

definition linber_Start_Job :: "env \<Rightarrow> bytes \<Rightarrow> start_job \<Rightarrow> kstate \<Rightarrow> outcome" where
  "linber_Start_Job env u sj s =
     bnd (findService u s) (\<lambda>(ser_node, s). linber_Start_Job_found env sj ser_node s)"

text \<open>linber_Start_Job from the return of the wait for a request on.\<close>

definition start_job_woken :: "env \<Rightarrow> start_job \<Rightarrow> addr \<Rightarrow> u32 \<Rightarrow> kstate \<Rightarrow> outcome" where
  "start_job_woken env sj sn worker_id s =
     bnd (worker_woken env sn (unat worker_id) s) (\<lambda>(req_node, s).
     case req_node of
       None \<Rightarrow> Inr (Done LINBER_SERVICE_SKIP_JOB, s)
     | Some a \<Rightarrow>
         bnd (load_req a s) (\<lambda>r.
         bnd (load_ser sn s) (\<lambda>ser.
         let s = dispatch_policy env ser (abs_deadline_ns r) s in
         CHECK_MEMORY_ERROR (put_user (UInt (request_len r)) (ptr_request_len sj) s) s (\<lambda>s.
         CHECK_MEMORY_ERROR (put_user (flag_cell (request_shm_mode r)) (ptr_request_shm_mode sj) s) s
           (\<lambda>s.
         if request_shm_mode r then
           CHECK_MEMORY_ERROR (put_user (UInt (shm_key (request r))) (sj_data sj) s) s
             (\<lambda>s. Inr (Done 0, s))
         else Inr (Done 0, s))))))"

definition linber_Start_Job_get_request_found :: "env \<Rightarrow> start_job \<Rightarrow> addr option \<Rightarrow> kstate \<Rightarrow> outcome" where
  "linber_Start_Job_get_request_found env sj ser_node s =
     (case ser_node of
       None \<Rightarrow> Inr (Done LINBER_SERVICE_NOT_EXISTS, s)
     | Some sn \<Rightarrow>
         bnd (load_ser sn s) (\<lambda>ser.
         if \<not> Service_check_Worker ser (sj_service_token sj) (sj_worker_id sj) then
           bnd (decrease_workers sn s) (\<lambda>s. Inr (Done LINBER_KILL_WORKER, s))
         else
           bnd (get_worker_by_id env ser (sj_worker_id sj)) (\<lambda>worker.
           case worker of
             None \<Rightarrow> Inr (Done 0, s)
           | Some i \<Rightarrow>
               (case serving (worker_slots ser ! i) of
                  None \<Rightarrow> Inr (Done LINBER_SERVICE_SKIP_JOB, s)
                | Some a \<Rightarrow>
                    bnd (load_req a s) (\<lambda>r.
                    bnd (load_buf (request r) s) (\<lambda>data.
                    CHECK_MEMORY_ERROR
                      (copy_to_user (sj_data sj) (take (unat (request_len r)) data) s) s
                      (\<lambda>s. Inr (Done 0, s))))))))"

definition linber_Start_Job_get_request :: "env \<Rightarrow> bytes \<Rightarrow> start_job \<Rightarrow> kstate \<Rightarrow> outcome" where
  "linber_Start_Job_get_request env u sj s =
     bnd (findService u s) (\<lambda>(ser_node, s). linber_Start_Job_get_request_found env sj ser_node s)"

definition linber_End_Job_found :: "env \<Rightarrow> end_job \<Rightarrow> addr option \<Rightarrow> kstate \<Rightarrow> outcome" where
  "linber_End_Job_found env ej ser_node s =
     (case ser_node of
       None \<Rightarrow> Inr (Done LINBER_SERVICE_NOT_EXISTS, s)
     | Some sn \<Rightarrow>
         bnd (load_ser sn s) (\<lambda>ser.
         if \<not> Service_check_Worker ser (ej_service_token ej) (ej_worker_id ej) then
           bnd (decrease_workers sn s) (\<lambda>s. Inr (Done LINBER_KILL_WORKER, s))
         else
           bnd (worker_get_request env ser (ej_worker_id ej)) (\<lambda>req_node.
           case req_node of
             None \<Rightarrow> Inr (Done LINBER_SERVICE_SKIP_JOB, s)
           | Some a \<Rightarrow>
               bnd (modify_req a (\<lambda>r. r\<lparr>response_len := ej_response_len ej,
                      response_shm_mode := (ej_response_shm_mode ej = 1)\<rparr>) s) (\<lambda>s.
               let finish = (\<lambda>s.
                     bnd (modify_req a (\<lambda>r. r\<lparr>result_cmd := LINBER_REQUEST_SUCCESS\<rparr>) s) (\<lambda>s.
                     bnd (move_from_worker_to_completed env sn (ej_worker_id ej) s)
                       (\<lambda>s. Inr (Done 0, s))))
               in if ej_response_shm_mode ej = 1 then
                    bnd (modify_req a (\<lambda>r. r\<lparr>response :=
                           set_shm_key (shm_key (ej_response ej)) (response r)\<rparr>) s) finish
                  else if ej_response_len ej > LINBER_MAX_MEM_SIZE then
                    bnd (modify_req a (\<lambda>r. r\<lparr>result_cmd := LINBER_REQUEST_FAILED\<rparr>) s) (\<lambda>s.
                    bnd (move_from_worker_to_completed env sn (ej_worker_id ej) s)
                      (\<lambda>s. Inr (Done LINBER_PAYLOAD_SIZE_ERROR, s)))
                  else
                    bnd (modify_req a (\<lambda>r. r\<lparr>response :=
                           (case kmalloc_buffer env (ej_response_len ej) of
                              None \<Rightarrow> 0 | Some (buffer, garbage) \<Rightarrow> buffer)\<rparr>) s) (\<lambda>s.
                    CHECK_KMALLOC_ERROR (kmalloc_buffer env (ej_response_len ej)) s
                      (\<lambda>(buffer, garbage).
                    let s = s\<lparr>bufs := (bufs s)(buffer \<mapsto> garbage)\<rparr> in
                    CHECK_MEMORY_ERROR
                      (copy_from_user (ej_response ej) (unat (ej_response_len ej)) s) s (\<lambda>data.
                    finish (s\<lparr>bufs := (bufs s)(buffer \<mapsto> data)\<rparr>))))))))"

definition linber_End_Job :: "env \<Rightarrow> bytes \<Rightarrow> end_job \<Rightarrow> kstate \<Rightarrow> outcome" where
  "linber_End_Job env u ej s =
     bnd (findService u s) (\<lambda>(ser_node, s). linber_End_Job_found env ej ser_node s)"

definition linber_destroy_service_found :: "env \<Rightarrow> u64 \<Rightarrow> addr option \<Rightarrow> kstate \<Rightarrow> outcome" where
  "linber_destroy_service_found env service_token node s =
     (case node of
       None \<Rightarrow> Inr (Done (- 1), s)
     | Some sn \<Rightarrow>
         bnd (load_ser sn s) (\<lambda>ser.
         if Service_check_Worker ser service_token 0 then
           bnd (destroy_service env sn s) (\<lambda>s. Inr (Done 0, s))
         else Inr (Done (- 1), s)))"

definition linber_destroy_service :: "env \<Rightarrow> bytes \<Rightarrow> u64 \<Rightarrow> kstate \<Rightarrow> outcome" where
  "linber_destroy_service env u service_token s =
     bnd (findService u s) (\<lambda>(node, s). linber_destroy_service_found env service_token node s)"



section \<open>System status\<close>

definition nSEC_TO_mSEC :: "u32 \<Rightarrow> u32" where
  "nSEC_TO_mSEC nsec = nsec div 1000000"

text \<open>
  The loop over the services, with the array of MAX_SERVICES entries that was copied in.
  None is the early return when a URI cannot be copied out: both mutexes stay locked.
\<close>

fun status_loop :: "nat \<Rightarrow> addr list \<Rightarrow> service_status list \<Rightarrow> kstate \<Rightarrow>
    fault + service_status list option \<times> kstate" where
  "status_loop i [] entries s = Inr (Some entries, s)"
| "status_loop i (sn # sns) entries s =
     (if of_nat i < Services_count s then
        bnd (mutex_lock_ser sn s) (\<lambda>s.
        bnd (load_ser sn s) (\<lambda>ser.
        if length entries \<le> i then Inl Buffer_overflow
        else
          case copy_to_user (st_uri (entries ! i)) (cstr (uri ser)) s of
            None \<Rightarrow> Inr (None, s)
          | Some s \<Rightarrow>
              bnd (mutex_unlock_ser sn s) (\<lambda>s.
              status_loop (Suc i) sns
                (entries[i := (entries ! i)\<lparr>
                   uri_len := of_nat (strlen (uri ser)),
                   st_Max_Working := Max_Workers ser,
                   requests_count := Request_count ser,
                   exec_time_ms := ucast (nSEC_TO_mSEC (exec_time_ns ser)),
                   period_ms := nSEC_TO_mSEC (period ser),
                   budget_ms := nSEC_TO_mSEC (budget ser)\<rparr>]) s)))
      else status_loop (Suc i) sns entries s)"

definition get_services :: "uaddr \<Rightarrow> nat \<Rightarrow> kstate \<Rightarrow> service_status list option" where
  "get_services p n s =
     (case umem s p of
        Some (UServices es) \<Rightarrow> if n \<le> length es then Some (take n es) else None
      | _ \<Rightarrow> None)"

definition put_services :: "uaddr \<Rightarrow> service_status list \<Rightarrow> nat \<Rightarrow> kstate \<Rightarrow> kstate option" where
  "put_services p entries n s =
     (if n = 0 then Some s
      else case umem s p of
        Some (UServices es) \<Rightarrow>
          if n \<le> length es
          then Some (s\<lparr>umem := (umem s)(p \<mapsto> UServices (take n entries @ drop n es))\<rparr>) else None
      | _ \<Rightarrow> None)"

definition linber_get_system_status :: "env \<Rightarrow> uaddr \<Rightarrow> kstate \<Rightarrow> outcome" where
  "linber_get_system_status env system_user s =
     CHECK_KMALLOC_ERROR (if kmalloc_status env then Some () else None) s (\<lambda>_.
     CHECK_MEMORY_ERROR (case umem s system_user of Some (USystem sys) \<Rightarrow> Some sys | _ \<Rightarrow> None) s
       (\<lambda>system.
     let system = system\<lparr>sys_Max_Working := Max_Working s, services_count := Services_count s\<rparr>;
         finish = (\<lambda>entries s.
           CHECK_MEMORY_ERROR (put_user (USystem system) system_user s) s (\<lambda>s.
           if length entries < unat (Services_count s) then Inl Buffer_overflow
           else CHECK_MEMORY_ERROR
             (put_services (services system) entries (unat (Services_count s)) s) s
             (\<lambda>s. Inr (Done 0, s))))
     in if 0 < Services_count s then
          CHECK_MEMORY_ERROR (get_services (services system) MAX_SERVICES s) s (\<lambda>entries.
          bnd (mutex_lock_linber s) (\<lambda>s.
          bnd (status_loop 0 (Services s) entries s) (\<lambda>(entries, s).
          case entries of
            None \<Rightarrow> Inr (Done LINBER_USER_MEMORY_ERROR, s)
          | Some entries \<Rightarrow> finish entries (mutex_unlock_linber s))))
        else finish [] s))"


section \<open>The dispatcher\<close>

datatype ioctl_op = IOCTL_REGISTER_SERVICE | IOCTL_REGISTER_SERVICE_WORKER
  | IOCTL_START_JOB_SERVICE | IOCTL_START_JOB_GET_REQUEST_SERVICE | IOCTL_END_JOB_SERVICE
  | IOCTL_DESTROY_SERVICE | IOCTL_SYSTEM_STATUS | IOCTL_REQUEST_SERVICE
  | IOCTL_REQUEST_SERVICE_GET_RESPONSE | IOCTL_OTHER u32

definition call_handler ::
    "env \<Rightarrow> ioctl_op \<Rightarrow> bytes \<Rightarrow> linber_service_struct \<Rightarrow> kstate \<Rightarrow> outcome" where
  "call_handler env ioctl_op u obj s =
     (case ioctl_op of
        IOCTL_REGISTER_SERVICE \<Rightarrow> linber_register_service env u (op_registration obj) s
      | IOCTL_REQUEST_SERVICE \<Rightarrow> linber_request_service env u (op_request obj) s
      | IOCTL_REQUEST_SERVICE_GET_RESPONSE \<Rightarrow>
          linber_request_service_get_response env u (op_request obj) s
      | IOCTL_REGISTER_SERVICE_WORKER \<Rightarrow>
          linber_register_service_worker env u (op_register_worker obj) s
      | IOCTL_START_JOB_SERVICE \<Rightarrow> linber_Start_Job env u (op_start_job obj) s
      | IOCTL_START_JOB_GET_REQUEST_SERVICE \<Rightarrow>
          linber_Start_Job_get_request env u (op_start_job obj) s
      | IOCTL_END_JOB_SERVICE \<Rightarrow> linber_End_Job env u (op_end_job obj) s
      | IOCTL_DESTROY_SERVICE \<Rightarrow> linber_destroy_service env u (ds_service_token obj) s
      | _ \<Rightarrow> Inr (Done LINBER_IOCTL_NOT_IMPLEMENTED, s))"

text \<open>
  The parameter block and the URI are copied in first; the URI buffer has one byte more
  than the announced length, computed in 32 bits.
\<close>

definition linber_ioctl :: "env \<Rightarrow> ioctl_op \<Rightarrow> uaddr \<Rightarrow> kstate \<Rightarrow> outcome" where
  "linber_ioctl env ioctl_op ioctl_param s =
     (if ioctl_op = IOCTL_SYSTEM_STATUS then linber_get_system_status env ioctl_param s
      else
        CHECK_KMALLOC_ERROR (if kmalloc_param env then Some () else None) s (\<lambda>_.
        CHECK_MEMORY_ERROR (case umem s ioctl_param of Some (UParams obj) \<Rightarrow> Some obj | _ \<Rightarrow> None) s
          (\<lambda>obj.
        CHECK_KMALLOC_ERROR (if kmalloc_uri env then Some () else None) s (\<lambda>_.
        CHECK_MEMORY_ERROR (copy_from_user (service_uri_ptr obj) (unat (service_uri_len obj)) s) s
          (\<lambda>uri_tmp.
        if service_uri_len obj + 1 \<le> service_uri_len obj then Inl Buffer_overflow
        else call_handler env ioctl_op uri_tmp obj s)))))"


section \<open>Loading and unloading\<close>

text \<open>The results of the device registration calls; Some e is an error pointer.\<close>

record device_env =
  register_chrdev :: int
  class_create :: "int option"
  device_create :: "int option"

text \<open>What the module asks of the kernel's device model: the calls that succeeded, in order.\<close>

datatype device_call = Register_chrdev | Class_create | Set_uevent | Device_create
  | Device_destroy | Class_unregister | Class_destroy | Unregister_chrdev

definition init_module :: "device_env \<Rightarrow> kstate \<Rightarrow> int \<times> device_call list \<times> kstate" where
  "init_module dev s =
     (if register_chrdev dev < 0 then (register_chrdev dev, [], s)
      else case class_create dev of Some e \<Rightarrow> (e, [Register_chrdev, Unregister_chrdev], s)
      | None \<Rightarrow> (case device_create dev of
          Some e \<Rightarrow> (e, [Register_chrdev, Class_create, Set_uevent, Class_destroy, Unregister_chrdev], s)
      | None \<Rightarrow>
          (0, [Register_chrdev, Class_create, Set_uevent, Device_create],
           s\<lparr>Services_rbtree := Leaf, Services := [], lin_Request_count := 0,
             Max_Working := 0, linber_mutex := False\<rparr>)))"

fun remove_all_services :: "nat \<Rightarrow> ser_ops \<Rightarrow> ser_root \<Rightarrow> fault + ser_root" where
  "remove_all_services 0 ops root = Inl Spin"
| "remove_all_services (Suc n) ops root =
     (case Remove_first_Service ops root of
        (None, root) \<Rightarrow> Inr root
      | (Some _, root) \<Rightarrow> remove_all_services n ops root)"

fun cleanup_services :: "env \<Rightarrow> addr list \<Rightarrow> kstate \<Rightarrow> fault + kstate" where
  "cleanup_services env [] s = Inr s"
| "cleanup_services env (sn # sns) s =
     (let s = s\<lparr>Services := remove1 sn (Services s)\<rparr>
      in bnd (destroy_service env sn s) (cleanup_services env sns))"

definition cleanup_module :: "env \<Rightarrow> kstate \<Rightarrow> fault + device_call list \<times> kstate" where
  "cleanup_module env s =
     bnd (remove_all_services (Suc (length (conts (Services_rbtree s)))) (rb_sers env)
            (Services_rbtree s)) (\<lambda>root.
     let s = s\<lparr>Services_rbtree := root\<rparr>
     in bnd (cleanup_services env (Services s) s) (\<lambda>s.
        Inr ([Device_destroy, Class_unregister, Class_destroy, Unregister_chrdev], s)))"

end
