(* ===== verification/Invariant.thy ===== *)
theory Invariant
  imports Handlers
begin

text \<open>
  The well-formedness of the module's state: the directory of services agrees with the
  service nodes, every request a service owns is allocated and is in one place only (the
  waiting tree, a worker's slot or the completed list), payload buffers belong to one
  request, the counters count, and no mutex is held. The lemmas here say what a handler
  has to check for the service it works on, and that the rest of the state is not
  concerned.
\<close>

section \<open>What a service owns\<close>

definition serving_list :: "worker_struct list \<Rightarrow> addr list" where
  "serving_list ws = List.map_filter serving ws"

definition owned :: "ServiceNode \<Rightarrow> addr list" where
  "owned n = map snd (waiting (Requests_rbtree n)) @ serving_list (worker_slots n) @
     Completed_RequestsHead n"

text \<open>The payload buffers of a request: its own, and the response's once it is completed.\<close>

definition request_buf :: "RequestNode \<Rightarrow> addr list" where
  "request_buf r = (if request_shm_mode r then [] else [request r])"

definition response_buf :: "RequestNode \<Rightarrow> addr list" where
  "response_buf r =
     (if result_cmd r = LINBER_REQUEST_SUCCESS \<and> \<not> response_shm_mode r then [response r] else [])"

definition bufs_at :: "(RequestNode \<Rightarrow> addr list) \<Rightarrow> (addr \<rightharpoonup> RequestNode) \<Rightarrow> addr list \<Rightarrow> addr list" where
  "bufs_at f rq as = concat (map (\<lambda>a. case rq a of None \<Rightarrow> [] | Some r \<Rightarrow> f r) as)"

definition owned_bufs :: "(addr \<rightharpoonup> RequestNode) \<Rightarrow> ServiceNode \<Rightarrow> addr list" where
  "owned_bufs rq n =
     bufs_at request_buf rq (owned n) @ bufs_at response_buf rq (Completed_RequestsHead n)"

definition buf_len :: "(addr \<rightharpoonup> bytes) \<Rightarrow> addr \<Rightarrow> u32 \<Rightarrow> bool" where
  "buf_len bf b len \<longleftrightarrow> (\<exists>data. bf b = Some data \<and> length data = unat len)"

definition request_ok :: "(addr \<rightharpoonup> bytes) \<Rightarrow> RequestNode \<Rightarrow> bool" where
  "request_ok bf r \<longleftrightarrow> request_shm_mode r \<or> buf_len bf (request r) (request_len r)"

definition response_ok :: "(addr \<rightharpoonup> bytes) \<Rightarrow> RequestNode \<Rightarrow> bool" where
  "response_ok bf r \<longleftrightarrow>
     result_cmd r \<noteq> LINBER_REQUEST_SUCCESS \<or> response_shm_mode r \<or>
     buf_len bf (response r) (response_len r)"


section \<open>Well-formed services and states\<close>

definition slots_ok :: "ServiceNode \<Rightarrow> bool" where
  "slots_ok n \<longleftrightarrow>
     length (worker_slots n) = unat (Max_Workers n) \<and> next_id n \<le> Max_Workers n \<and>
     (\<forall>i < length (worker_slots n).
        (task (worker_slots n ! i) = None \<longleftrightarrow> unat (next_id n) \<le> i) \<and>
        (task (worker_slots n ! i) = None \<longrightarrow> serving (worker_slots n ! i) = None))"

definition ser_ok :: "(addr \<rightharpoonup> RequestNode) \<Rightarrow> (addr \<rightharpoonup> bytes) \<Rightarrow> ServiceNode \<Rightarrow> bool" where
  "ser_ok rq bf n \<longleftrightarrow>
     \<not> service_mutex n \<and>
     no_empty_queue (Requests_rbtree n) \<and>
     distinct (owned n) \<and>
     (\<forall>a \<in> set (owned n). \<exists>r. rq a = Some r \<and> request_ok bf r) \<and>
     (\<forall>(d, a) \<in> set (waiting (Requests_rbtree n)). \<exists>r. rq a = Some r \<and> abs_deadline_ns r = d) \<and>
     (\<forall>a \<in> set (Completed_RequestsHead n). \<exists>r. rq a = Some r \<and> response_ok bf r) \<and>
     distinct (owned_bufs rq n) \<and>
     (\<not> destroy_me n \<longrightarrow> Request_count n = of_nat (length (waiting (Requests_rbtree n)))) \<and>
     slots_ok n"

definition dir_ok :: "kstate \<Rightarrow> bool" where
  "dir_ok s \<longleftrightarrow>
     uri_tree (Services_rbtree s) \<and>
     distinct (Services s) \<and>
     set (Services s) = dom (sers s) \<and>
     mset (map Service (conts (Services_rbtree s))) = mset (Services s) \<and>
     (\<forall>c \<in> set (conts (Services_rbtree s)).
        \<exists>n. sers s (Service c) = Some n \<and> uri n = service_uri c) \<and>
     Services_count s = of_nat (length (Services s)) \<and>
     Max_Working s = (\<Sum>sn \<leftarrow> Services s. Max_Workers (the (sers s sn)))"

definition separate :: "kstate \<Rightarrow> bool" where
  "separate s \<longleftrightarrow>
     (\<forall>sn sn' n n'. sers s sn = Some n \<longrightarrow> sers s sn' = Some n' \<longrightarrow> sn \<noteq> sn' \<longrightarrow>
        set (owned n) \<inter> set (owned n') = {} \<and>
        set (owned_bufs (reqs s) n) \<inter> set (owned_bufs (reqs s) n') = {})"

definition well_formed :: "kstate \<Rightarrow> bool" where
  "well_formed s \<longleftrightarrow>
     \<not> linber_mutex s \<and> dir_ok s \<and> separate s \<and>
     (\<forall>sn n. sers s sn = Some n \<longrightarrow> ser_ok (reqs s) (bufs s) n)"

text \<open>
  What an allocation promises: memory that is not in use, and a buffer as long as asked.
\<close>

definition env_ok :: "env \<Rightarrow> kstate \<Rightarrow> bool" where
  "env_ok env s \<longleftrightarrow>
     rb_ok (rb_reqs env) \<and> rb_ok (rb_sers env) \<and>
     (\<forall>a g. kmalloc_request env = Some (a, g) \<longrightarrow> reqs s a = None) \<and>
     (\<forall>a g. kmalloc_service env = Some (a, g) \<longrightarrow> sers s a = None) \<and>
     (\<forall>n a g. kmalloc_buffer env n = Some (a, g) \<longrightarrow> bufs s a = None \<and> length g = unat n)"


section \<open>Frame lemmas\<close>

text \<open>Fields the invariant does not read.\<close>

lemma owned_irrelevant [simp]:
  "owned (n\<lparr>next_req_token := k\<rparr>) = owned n" "owned (n\<lparr>sem_for_request := j\<rparr>) = owned n"
  "owned (n\<lparr>count_registered := i\<rparr>) = owned n" "owned (n\<lparr>service_mutex := b\<rparr>) = owned n"
  "owned (n\<lparr>next_id := i\<rparr>) = owned n"
  by (simp_all add: owned_def)

lemma owned_bufs_irrelevant [simp]:
  "owned_bufs rq (n\<lparr>next_req_token := k\<rparr>) = owned_bufs rq n"
  "owned_bufs rq (n\<lparr>sem_for_request := j\<rparr>) = owned_bufs rq n"
  "owned_bufs rq (n\<lparr>count_registered := i\<rparr>) = owned_bufs rq n"
  by (simp_all add: owned_bufs_def)

lemma slots_ok_irrelevant [simp]:
  "slots_ok (n\<lparr>next_req_token := k\<rparr>) = slots_ok n" "slots_ok (n\<lparr>sem_for_request := j\<rparr>) = slots_ok n"
  "slots_ok (n\<lparr>count_registered := i\<rparr>) = slots_ok n"
  by (simp_all add: slots_ok_def)

lemma ser_ok_irrelevant [simp]:
  "ser_ok rq bf (n\<lparr>next_req_token := k\<rparr>) = ser_ok rq bf n"
  "ser_ok rq bf (n\<lparr>sem_for_request := j\<rparr>) = ser_ok rq bf n"
  "ser_ok rq bf (n\<lparr>count_registered := i\<rparr>) = ser_ok rq bf n"
  by (simp_all add: ser_ok_def)

lemma bufs_at_simps [simp]:
  "bufs_at f rq [] = []"
  "bufs_at f rq (as @ bs) = bufs_at f rq as @ bufs_at f rq bs"
  "bufs_at f rq (a # as) = (case rq a of None \<Rightarrow> [] | Some r \<Rightarrow> f r) @ bufs_at f rq as"
  by (simp_all add: bufs_at_def)

lemma bufs_at_cong:
  "(\<And>a. a \<in> set as \<Longrightarrow> rq' a = rq a) \<Longrightarrow> bufs_at f rq' as = bufs_at f rq as"
  by (simp add: bufs_at_def cong: map_cong)

lemma bufs_at_upd [simp]:
  "a \<notin> set as \<Longrightarrow> bufs_at f (rq(a := r)) as = bufs_at f rq as"
  by (rule bufs_at_cong) auto

lemma in_bufs_at:
  "b \<in> set (bufs_at f rq as) \<longleftrightarrow> (\<exists>a \<in> set as. \<exists>r. rq a = Some r \<and> b \<in> set (f r))"
  by (induction as) (auto split: option.splits)

lemma serving_list_simps [simp]:
  "serving_list [] = []"
  "serving_list (w # ws) = (case serving w of None \<Rightarrow> [] | Some a \<Rightarrow> [a]) @ serving_list ws"
  "serving_list (ws @ vs) = serving_list ws @ serving_list vs"
  by (auto simp: serving_list_def List.map_filter_def split: option.splits)

lemma serving_list_replicate [simp]: "serving w = None \<Longrightarrow> serving_list (replicate k w) = []"
  by (induction k) auto

lemma in_serving_list:
  "a \<in> set (serving_list ws) \<longleftrightarrow> (\<exists>w \<in> set ws. serving w = Some a)"
  by (induction ws) (auto split: option.splits)

lemma owned_bufs_cong:
  assumes "\<And>a. a \<in> set (owned n) \<Longrightarrow> rq' a = rq a"
  shows "owned_bufs rq' n = owned_bufs rq n"
proof -
  have "bufs_at f rq' (owned n) = bufs_at f rq (owned n)"
    and "bufs_at f rq' (Completed_RequestsHead n) = bufs_at f rq (Completed_RequestsHead n)" for f
    using assms by (intro bufs_at_cong; simp add: owned_def)+
  then show ?thesis by (simp add: owned_bufs_def)
qed

lemma in_owned_bufs:
  "b \<in> set (owned_bufs rq n) \<longleftrightarrow>
    (\<exists>a \<in> set (owned n). \<exists>r. rq a = Some r \<and> b \<in> set (request_buf r)) \<or>
    (\<exists>a \<in> set (Completed_RequestsHead n). \<exists>r. rq a = Some r \<and> b \<in> set (response_buf r))"
  by (simp add: owned_bufs_def in_bufs_at)

lemma request_ok_cong:
  "request_ok bf r \<Longrightarrow> (\<And>b. b \<in> set (request_buf r) \<Longrightarrow> bf' b = bf b) \<Longrightarrow> request_ok bf' r"
  by (auto simp: request_ok_def request_buf_def buf_len_def)

lemma response_ok_cong:
  "response_ok bf r \<Longrightarrow> (\<And>b. b \<in> set (response_buf r) \<Longrightarrow> bf' b = bf b) \<Longrightarrow> response_ok bf' r"
  by (auto simp: response_ok_def response_buf_def buf_len_def split: if_splits)

lemma ser_okI:
  assumes "\<not> service_mutex n" and "no_empty_queue (Requests_rbtree n)" and "distinct (owned n)"
    and "\<And>a. a \<in> set (owned n) \<Longrightarrow> \<exists>r. rq a = Some r \<and> request_ok bf r"
    and "\<And>d a. (d, a) \<in> set (waiting (Requests_rbtree n)) \<Longrightarrow> \<exists>r. rq a = Some r \<and> abs_deadline_ns r = d"
    and "\<And>a. a \<in> set (Completed_RequestsHead n) \<Longrightarrow> \<exists>r. rq a = Some r \<and> response_ok bf r"
    and "distinct (owned_bufs rq n)"
    and "\<not> destroy_me n \<Longrightarrow> Request_count n = of_nat (length (waiting (Requests_rbtree n)))"
    and "slots_ok n"
  shows "ser_ok rq bf n"
  unfolding ser_ok_def using assms by (intro conjI ballI) (auto split: prod.splits)

lemma ser_okD:
  assumes "ser_ok rq bf n"
  shows "\<not> service_mutex n" and "no_empty_queue (Requests_rbtree n)" and "distinct (owned n)"
    and "distinct (owned_bufs rq n)" and "slots_ok n"
    and "\<not> destroy_me n \<Longrightarrow> Request_count n = of_nat (length (waiting (Requests_rbtree n)))"
  using assms by (simp_all add: ser_ok_def)

lemma ser_ok_waiting:
  "ser_ok rq bf n \<Longrightarrow> (d, a) \<in> set (waiting (Requests_rbtree n)) \<Longrightarrow>
    \<exists>r. rq a = Some r \<and> abs_deadline_ns r = d"
  by (auto simp: ser_ok_def)

text \<open>Only the requests and the buffers a service owns matter for it.\<close>

lemma ser_ok_frame:
  assumes ok: "ser_ok rq bf n"
    and rq: "\<And>a. a \<in> set (owned n) \<Longrightarrow> rq' a = rq a"
    and bf: "\<And>b. b \<in> set (owned_bufs rq n) \<Longrightarrow> bf' b = bf b"
  shows "ser_ok rq' bf' n"
proof -
  have comp: "a \<in> set (owned n)" if "a \<in> set (Completed_RequestsHead n)" for a
    using that by (simp add: owned_def)
  have wait: "a \<in> set (owned n)" if "(d, a) \<in> set (waiting (Requests_rbtree n))" for d a
    using that by (force simp: owned_def)
  have "\<forall>a \<in> set (owned n). \<exists>r. rq' a = Some r \<and> request_ok bf' r"
  proof
    fix a assume a: "a \<in> set (owned n)"
    with ok obtain r where r: "rq a = Some r" "request_ok bf r" by (auto simp: ser_ok_def)
    have "bf' b = bf b" if "b \<in> set (request_buf r)" for b
      using that a r(1) by (intro bf) (auto simp: in_owned_bufs)
    with r(2) have "request_ok bf' r" by (rule request_ok_cong)
    with rq [OF a] r(1) show "\<exists>r. rq' a = Some r \<and> request_ok bf' r" by simp
  qed
  moreover have "\<forall>a \<in> set (Completed_RequestsHead n). \<exists>r. rq' a = Some r \<and> response_ok bf' r"
  proof
    fix a assume a: "a \<in> set (Completed_RequestsHead n)"
    with ok obtain r where r: "rq a = Some r" "response_ok bf r" by (auto simp: ser_ok_def)
    have "bf' b = bf b" if "b \<in> set (response_buf r)" for b
      using that a r(1) by (intro bf) (auto simp: in_owned_bufs)
    with r(2) have "response_ok bf' r" by (rule response_ok_cong)
    with rq [OF comp [OF a]] r(1) show "\<exists>r. rq' a = Some r \<and> response_ok bf' r" by simp
  qed
  ultimately show ?thesis
    using ok owned_bufs_cong [OF rq] wait rq
    by (fastforce simp: ser_ok_def)
qed

lemma wf_serD: "well_formed s \<Longrightarrow> sers s sn = Some n \<Longrightarrow> ser_ok (reqs s) (bufs s) n"
  by (simp add: well_formed_def)


section \<open>Changing one service\<close>

definition same_globals :: "kstate \<Rightarrow> kstate \<Rightarrow> bool" where
  "same_globals s s' \<longleftrightarrow>
     Services_rbtree s' = Services_rbtree s \<and> Services s' = Services s \<and>
     Services_count s' = Services_count s \<and> Max_Working s' = Max_Working s \<and>
     linber_mutex s' = linber_mutex s"

lemma wf_cong:
  assumes "well_formed s" and "same_globals s s'"
    and "sers s' = sers s" and "reqs s' = reqs s" and "bufs s' = bufs s"
  shows "well_formed s'"
  using assms by (simp add: well_formed_def dir_ok_def separate_def same_globals_def)

lemma wf_umem [simp]: "well_formed (s\<lparr>umem := u\<rparr>) \<longleftrightarrow> well_formed s"
  by (simp add: well_formed_def dir_ok_def separate_def)

lemma wf_sched [simp]: "well_formed (s\<lparr>sched := u\<rparr>) \<longleftrightarrow> well_formed s"
  by (simp add: well_formed_def dir_ok_def separate_def)

lemma ser_ok_owned:
  "ser_ok rq bf n \<Longrightarrow> a \<in> set (owned n) \<Longrightarrow> \<exists>r. rq a = Some r \<and> request_ok bf r"
  by (simp add: ser_ok_def)

lemma ser_ok_completed:
  "ser_ok rq bf n \<Longrightarrow> a \<in> set (Completed_RequestsHead n) \<Longrightarrow> \<exists>r. rq a = Some r \<and> response_ok bf r"
  by (simp add: ser_ok_def)

lemma wf_owned_alloc:
  "well_formed s \<Longrightarrow> sers s sn = Some n \<Longrightarrow> a \<in> set (owned n) \<Longrightarrow> reqs s a \<noteq> None"
  using ser_ok_owned [OF wf_serD] by fastforce

lemma ser_ok_bufs_alloc:
  assumes "ser_ok rq bf n" and "b \<in> set (owned_bufs rq n)"
  shows "bf b \<noteq> None"
  using assms(2) unfolding in_owned_bufs
proof (elim disjE bexE exE conjE)
  fix a r assume "a \<in> set (owned n)" "rq a = Some r" "b \<in> set (request_buf r)"
  with ser_ok_owned [OF assms(1)] show ?thesis
    by (fastforce simp: request_ok_def request_buf_def buf_len_def split: if_splits)
next
  fix a r assume "a \<in> set (Completed_RequestsHead n)" "rq a = Some r" "b \<in> set (response_buf r)"
  with ser_ok_completed [OF assms(1)] show ?thesis
    by (fastforce simp: response_ok_def response_buf_def buf_len_def split: if_splits)
qed

lemma wf_bufs_alloc:
  "well_formed s \<Longrightarrow> sers s sn = Some n \<Longrightarrow> b \<in> set (owned_bufs (reqs s) n) \<Longrightarrow> bufs s b \<noteq> None"
  by (rule ser_ok_bufs_alloc [OF wf_serD])

lemma dir_ok_update:
  assumes "dir_ok s" and "sers s sn = Some n" and "uri n' = uri n" and "Max_Workers n' = Max_Workers n"
    and "same_globals s s'" and "sers s' = (sers s)(sn \<mapsto> n')"
  shows "dir_ok s'"
proof -
  have "Max_Workers (the (sers s' x)) = Max_Workers (the (sers s x))" for x
    using assms(2,4,6) by simp
  then have "(\<Sum>x \<leftarrow> Services s. Max_Workers (the (sers s' x))) =
      (\<Sum>x \<leftarrow> Services s. Max_Workers (the (sers s x)))" by simp
  moreover have "dom (sers s') = dom (sers s)" using assms(2,6) by auto
  moreover have "\<forall>c \<in> set (conts (Services_rbtree s)). \<exists>m. sers s' (Service c) = Some m \<and> uri m = service_uri c"
  proof
    fix c assume "c \<in> set (conts (Services_rbtree s))"
    with assms(1) obtain m where "sers s (Service c) = Some m" "uri m = service_uri c"
      by (auto simp: dir_ok_def)
    with assms(2,3,6) show "\<exists>m. sers s' (Service c) = Some m \<and> uri m = service_uri c"
      by (cases "Service c = sn") auto
  qed
  ultimately show ?thesis
    using assms(1,5) by (simp add: dir_ok_def same_globals_def)
qed

lemma wf_update:
  assumes wf: "well_formed s" and n: "sers s sn = Some n"
    and n': "ser_ok (reqs s') (bufs s') n'" "uri n' = uri n" "Max_Workers n' = Max_Workers n"
    and s': "same_globals s s'" "sers s' = (sers s)(sn \<mapsto> n')"
    and rq: "\<And>a. a \<notin> set (owned n) \<Longrightarrow> reqs s a \<noteq> None \<Longrightarrow> reqs s' a = reqs s a"
    and bf: "\<And>b. b \<notin> set (owned_bufs (reqs s) n) \<Longrightarrow> bufs s b \<noteq> None \<Longrightarrow> bufs s' b = bufs s b"
    and own: "\<And>a. a \<in> set (owned n') \<Longrightarrow> a \<in> set (owned n) \<or> reqs s a = None"
    and ownb: "\<And>b. b \<in> set (owned_bufs (reqs s') n') \<Longrightarrow>
      b \<in> set (owned_bufs (reqs s) n) \<or> bufs s b = None"
  shows "well_formed s'"
proof -
  have sep: "set (owned n) \<inter> set (owned m) = {}"
    "set (owned_bufs (reqs s) n) \<inter> set (owned_bufs (reqs s) m) = {}"
    if "sers s sm = Some m" "sm \<noteq> sn" for sm m
    using wf n that by (auto simp: well_formed_def separate_def)
  have rq_m: "reqs s' a = reqs s a" if "sers s sm = Some m" "sm \<noteq> sn" "a \<in> set (owned m)" for sm m a
    using sep(1) [OF that(1,2)] that(3) wf_owned_alloc [OF wf that(1,3)] by (intro rq) auto
  have bf_m: "bufs s' b = bufs s b"
    if "sers s sm = Some m" "sm \<noteq> sn" "b \<in> set (owned_bufs (reqs s) m)" for sm m b
    using sep(2) [OF that(1,2)] that(3) wf_bufs_alloc [OF wf that(1,3)] by (intro bf) auto
  have bufs_m: "owned_bufs (reqs s') m = owned_bufs (reqs s) m"
    if "sers s sm = Some m" "sm \<noteq> sn" for sm m
    by (rule owned_bufs_cong) (rule rq_m [OF that])
  have ok: "ser_ok (reqs s') (bufs s') m" if "sers s' sm = Some m" for sm m
  proof (cases "sm = sn")
    case True
    with that s'(2) n'(1) show ?thesis by simp
  next
    case False
    with that s'(2) have m: "sers s sm = Some m" by simp
    show ?thesis
      by (rule ser_ok_frame [OF wf_serD [OF wf m]]) (use rq_m bf_m m False in blast)+
  qed
  have new: "set (owned n') \<inter> set (owned m) = {}"
    "set (owned_bufs (reqs s') n') \<inter> set (owned_bufs (reqs s') m) = {}"
    if m: "sers s sm = Some m" "sm \<noteq> sn" for sm m
    using sep [OF m] own ownb wf_owned_alloc [OF wf m(1)] wf_bufs_alloc [OF wf m(1)]
    unfolding bufs_m [OF m] by blast+
  have "separate s'"
    unfolding separate_def
  proof (intro allI impI)
    fix x y m k assume xy: "sers s' x = Some m" "sers s' y = Some k" "x \<noteq> y"
    consider "x = sn" | "y = sn" | "x \<noteq> sn" "y \<noteq> sn" by blast
    then show "set (owned m) \<inter> set (owned k) = {} \<and>
        set (owned_bufs (reqs s') m) \<inter> set (owned_bufs (reqs s') k) = {}"
    proof cases
      case 1
      with xy s'(2) have "m = n'" "sers s y = Some k" "y \<noteq> sn" by auto
      with new show ?thesis by simp
    next
      case 2
      with xy s'(2) have "k = n'" "sers s x = Some m" "x \<noteq> sn" by auto
      with new show ?thesis by (simp add: Int_commute)
    next
      case 3
      with xy s'(2) have xy': "sers s x = Some m" "sers s y = Some k" by simp_all
      with wf xy(3) have "set (owned m) \<inter> set (owned k) = {} \<and>
          set (owned_bufs (reqs s) m) \<inter> set (owned_bufs (reqs s) k) = {}"
        unfolding well_formed_def separate_def by blast
      then show ?thesis by (simp only: bufs_m [OF xy'(1) 3(1)] bufs_m [OF xy'(2) 3(2)])
    qed
  qed
  moreover have "dir_ok s'"
    by (rule dir_ok_update [OF _ n n'(2,3) s']) (use wf in \<open>simp add: well_formed_def\<close>)
  ultimately show ?thesis
    using wf ok s'(1) by (simp add: well_formed_def same_globals_def)
qed

text \<open>A change that keeps what the service owns, and touches no request.\<close>

lemma wf_update_ser:
  assumes "well_formed s" and "sers s sn = Some n"
    and "ser_ok (reqs s) (bufs s) n'" and "uri n' = uri n" and "Max_Workers n' = Max_Workers n"
    and "set (owned n') \<subseteq> set (owned n)"
    and "set (Completed_RequestsHead n') \<subseteq> set (Completed_RequestsHead n)"
  shows "well_formed (s\<lparr>sers := (sers s)(sn \<mapsto> n')\<rparr>)"
proof (rule wf_update [OF assms(1,2), where n' = n'])
  show "b \<in> set (owned_bufs (reqs s) n) \<or> bufs s b = None"
    if "b \<in> set (owned_bufs (reqs (s\<lparr>sers := (sers s)(sn \<mapsto> n')\<rparr>)) n')" for b
    using that assms(6,7) by (simp add: in_owned_bufs) blast
qed (use assms in \<open>auto simp: same_globals_def\<close>)


text \<open>New memory that no service owns, be it leaked.\<close>

lemma wf_frame:
  assumes wf: "well_formed s" and s': "same_globals s s'" "sers s' = sers s"
    and rq: "\<And>a. reqs s a \<noteq> None \<Longrightarrow> reqs s' a = reqs s a"
    and bf: "\<And>b. bufs s b \<noteq> None \<Longrightarrow> bufs s' b = bufs s b"
  shows "well_formed s'"
proof -
  have rq': "reqs s' a = reqs s a" if "sers s sn = Some n" "a \<in> set (owned n)" for sn n a
    by (rule rq) (rule wf_owned_alloc [OF wf that])
  have bf': "bufs s' b = bufs s b" if "sers s sn = Some n" "b \<in> set (owned_bufs (reqs s) n)" for sn n b
    by (rule bf) (rule wf_bufs_alloc [OF wf that])
  have bufs: "owned_bufs (reqs s') n = owned_bufs (reqs s) n" if "sers s sn = Some n" for sn n
    by (rule owned_bufs_cong) (rule rq' [OF that])
  have "ser_ok (reqs s') (bufs s') n" if "sers s sn = Some n" for sn n
    by (rule ser_ok_frame [OF wf_serD [OF wf that]]) (use rq' bf' that in blast)+
  moreover have "separate s'"
    using wf bufs unfolding well_formed_def separate_def s'(2) by simp
  moreover have "dir_ok s'"
    using wf s' by (simp add: well_formed_def dir_ok_def same_globals_def)
  ultimately show ?thesis
    using wf s' by (simp add: well_formed_def same_globals_def)
qed

lemma wf_new_buf: "well_formed s \<Longrightarrow> bufs s b = None \<Longrightarrow> well_formed (s\<lparr>bufs := (bufs s)(b \<mapsto> data)\<rparr>)"
  by (erule wf_frame) (auto simp: same_globals_def)

lemma wf_new_req: "well_formed s \<Longrightarrow> reqs s a = None \<Longrightarrow> well_formed (s\<lparr>reqs := (reqs s)(a \<mapsto> r)\<rparr>)"
  by (erule wf_frame) (auto simp: same_globals_def)


text \<open>Writing to a request without moving its payload.\<close>

definition same_payload :: "RequestNode \<Rightarrow> RequestNode \<Rightarrow> bool" where
  "same_payload r r' \<longleftrightarrow> request r' = request r \<and> request_len r' = request_len r \<and>
     request_shm_mode r' = request_shm_mode r \<and> abs_deadline_ns r' = abs_deadline_ns r"

definition same_response :: "RequestNode \<Rightarrow> RequestNode \<Rightarrow> bool" where
  "same_response r r' \<longleftrightarrow> response r' = response r \<and> response_len r' = response_len r \<and>
     response_shm_mode r' = response_shm_mode r \<and> result_cmd r' = result_cmd r"

lemma ser_ok_touch:
  assumes ok: "ser_ok rq bf n" and a: "rq a = Some r" and r': "same_payload r r'"
    and resp: "a \<in> set (Completed_RequestsHead n) \<Longrightarrow> same_response r r'"
  shows "owned_bufs (rq(a \<mapsto> r')) n = owned_bufs rq n" and "ser_ok (rq(a \<mapsto> r')) bf n"
proof -
  have "bufs_at request_buf (rq(a \<mapsto> r')) as = bufs_at request_buf rq as" for as
    unfolding bufs_at_def using a r'
    by (intro arg_cong [where f = concat] map_cong refl) (auto simp: request_buf_def same_payload_def)
  moreover have "bufs_at response_buf (rq(a \<mapsto> r')) (Completed_RequestsHead n) =
      bufs_at response_buf rq (Completed_RequestsHead n)"
    unfolding bufs_at_def using a resp
    by (intro arg_cong [where f = concat] map_cong refl)
      (auto simp: response_buf_def same_response_def)
  ultimately show bufs: "owned_bufs (rq(a \<mapsto> r')) n = owned_bufs rq n" by (simp add: owned_bufs_def)
  have req: "\<exists>q. (rq(a \<mapsto> r')) x = Some q \<and> request_ok bf q" if "x \<in> set (owned n)" for x
    using ser_ok_owned [OF ok that] a r' by (auto simp: request_ok_def same_payload_def)
  have res: "\<exists>q. (rq(a \<mapsto> r')) x = Some q \<and> response_ok bf q"
    if "x \<in> set (Completed_RequestsHead n)" for x
    using ser_ok_completed [OF ok that] a resp that
    by (auto simp: response_ok_def same_response_def)
  have wait: "\<exists>q. (rq(a \<mapsto> r')) x = Some q \<and> abs_deadline_ns q = d"
    if "(d, x) \<in> set (waiting (Requests_rbtree n))" for d x
  proof -
    from ok that obtain q where "rq x = Some q" "abs_deadline_ns q = d" by (auto simp: ser_ok_def)
    with a r' show ?thesis by (cases "x = a") (simp_all add: same_payload_def)
  qed
  show "ser_ok (rq(a \<mapsto> r')) bf n"
    by (rule ser_okI) (use ser_okD [OF ok] req res wait in \<open>simp_all only: bufs not_False_eq_True simp_thms\<close>)
qed

lemma wf_touch:
  assumes wf: "well_formed s" and a: "reqs s a = Some r" and r': "same_payload r r'"
    and resp: "\<And>sn n. sers s sn = Some n \<Longrightarrow> a \<in> set (Completed_RequestsHead n) \<Longrightarrow> same_response r r'"
  shows "well_formed (s\<lparr>reqs := (reqs s)(a \<mapsto> r')\<rparr>)"
proof -
  note t = ser_ok_touch [OF wf_serD [OF wf] a r' resp]
  have "separate (s\<lparr>reqs := (reqs s)(a \<mapsto> r')\<rparr>)"
    unfolding separate_def
  proof (intro allI impI)
    fix x y m k
    assume "sers (s\<lparr>reqs := (reqs s)(a \<mapsto> r')\<rparr>) x = Some m"
      "sers (s\<lparr>reqs := (reqs s)(a \<mapsto> r')\<rparr>) y = Some k" "x \<noteq> y"
    then have xy: "sers s x = Some m" "sers s y = Some k" "x \<noteq> y" by simp_all
    have rq: "reqs (s\<lparr>reqs := (reqs s)(a \<mapsto> r')\<rparr>) = (reqs s)(a \<mapsto> r')" by simp
    have b: "owned_bufs ((reqs s)(a \<mapsto> r')) m = owned_bufs (reqs s) m"
      "owned_bufs ((reqs s)(a \<mapsto> r')) k = owned_bufs (reqs s) k"
      using t(1) xy(1,2) by blast+
    from wf xy show "set (owned m) \<inter> set (owned k) = {} \<and>
        set (owned_bufs (reqs (s\<lparr>reqs := (reqs s)(a \<mapsto> r')\<rparr>)) m) \<inter>
        set (owned_bufs (reqs (s\<lparr>reqs := (reqs s)(a \<mapsto> r')\<rparr>)) k) = {}"
      unfolding rq b well_formed_def separate_def by blast
  qed
  moreover have "dir_ok (s\<lparr>reqs := (reqs s)(a \<mapsto> r')\<rparr>)"
    using wf by (simp add: well_formed_def dir_ok_def)
  moreover have "ser_ok ((reqs s)(a \<mapsto> r')) (bufs s) m" if "sers s x = Some m" for x m
    using t(2) [OF that that] by blast
  ultimately show ?thesis
    using wf by (simp add: well_formed_def)
qed


section \<open>The directory of a well-formed state\<close>

lemma findService_wf:
  assumes "well_formed s"
  shows "findService u s = Inr (directory (Services_rbtree s) (cstr u), s)"
proof -
  have "s\<lparr>linber_mutex := False\<rparr> = s"
    using assms by (simp add: well_formed_def)
  with assms show ?thesis
    by (simp add: findService_def steps well_formed_def dir_ok_def get_ServiceNode_directory)
qed

lemma directory_service:
  assumes "well_formed s" and "directory (Services_rbtree s) k = Some sn"
  obtains n where "sers s sn = Some n" and "cstr (uri n) = k"
    and "ser_ok (reqs s) (bufs s) n"
proof -
  from assms have "uri_tree (Services_rbtree s)" by (simp add: well_formed_def dir_ok_def)
  with assms(2) obtain c where "c \<in> set (conts (Services_rbtree s))" "cstr (service_uri c) = k"
    "Service c = sn" by (auto simp: directory_Some_iff)
  with assms(1) obtain n where "sers s sn = Some n" "cstr (uri n) = k"
    by (auto simp: well_formed_def dir_ok_def)
  with assms(1) show thesis by (intro that) (auto intro: wf_serD)
qed

lemma service_in_directory:
  assumes "well_formed s" and "sers s sn = Some n"
  shows "directory (Services_rbtree s) (cstr (uri n)) = Some sn"
proof -
  have ok: "dir_ok s" using assms(1) by (simp add: well_formed_def)
  then have "set (map Service (conts (Services_rbtree s))) = dom (sers s)"
    unfolding dir_ok_def by (metis set_mset_mset)
  with assms(2) have "sn \<in> Service ` set (conts (Services_rbtree s))" by auto
  then obtain c where "c \<in> set (conts (Services_rbtree s))" "Service c = sn" by blast
  with ok assms(2) show ?thesis by (force simp: dir_ok_def directory_Some_iff)
qed

lemma dir_ok_remove:
  assumes d: "dir_ok s" and n: "sers s sn = Some n" and ops: "rb_ok ops"
    and R: "Remove_Service ops (Services_rbtree s) (uri n) = (Some sn, Services_rbtree s')"
    and s': "Services s' = remove1 sn (Services s)" "Services_count s' = Services_count s - 1"
      "Max_Working s' = Max_Working s - Max_Workers n" "sers s' = (sers s)(sn := None)"
  shows "dir_ok s'"
proof -
  have tree: "uri_tree (Services_rbtree s)" and ms: "mset (map Service (conts (Services_rbtree s))) = mset (Services s)"
    and dis: "distinct (Services s)" and dom: "set (Services s) = dom (sers s)"
    using d by (simp_all add: dir_ok_def)
  have sn: "sn \<in> set (Services s)" using dom n by auto
  obtain xs c ys where c: "conts (Services_rbtree s) = xs @ c # ys"
    "conts (Services_rbtree s') = xs @ ys" "Service c = sn"
    using Remove_Service_conts [OF ops tree R] by metis
  have "distinct (map Service (conts (Services_rbtree s)))"
    using ms dis mset_eq_imp_distinct_iff by blast
  then have notin: "\<forall>c' \<in> set (xs @ ys). Service c' \<noteq> sn"
    unfolding c(1) map_append list.map c(3) distinct_append by auto
  have "mset (map Service (conts (Services_rbtree s'))) = mset (Services s')"
    using ms c s'(1) by (simp flip: ms)
  moreover have "Services_count s' = of_nat (length (Services s'))"
  proof -
    have "Services_count s = of_nat (length (Services s))" using d by (simp add: dir_ok_def)
    moreover from sn have "length (Services s) = Suc (length (remove1 sn (Services s)))"
      by (simp add: length_remove1) (metis Suc_pred length_pos_if_in_set)
    ultimately show ?thesis using s'(1,2) by simp
  qed
  moreover have "Max_Working s' = (\<Sum>x \<leftarrow> Services s'. Max_Workers (the (sers s' x)))"
  proof -
    have "(\<Sum>x \<leftarrow> Services s'. Max_Workers (the (sers s' x))) =
        (\<Sum>x \<leftarrow> remove1 sn (Services s). Max_Workers (the (sers s x)))"
      using s'(1,4) dis by (intro arg_cong [where f = sum_list] map_cong) auto
    moreover have "Max_Working s = Max_Workers n + \<dots>"
      using d sum_list_map_remove1 [OF sn, of "\<lambda>x. Max_Workers (the (sers s x))"] n
      by (simp add: dir_ok_def)
    ultimately show ?thesis using s'(3) by simp
  qed
  moreover have "\<forall>c \<in> set (conts (Services_rbtree s')).
      \<exists>m. sers s' (Service c) = Some m \<and> uri m = service_uri c"
    using d s'(4) notin unfolding dir_ok_def c by auto
  moreover have "set (Services s') = dom (sers s')" and "distinct (Services s')"
    using s'(1,4) dis dom by auto
  ultimately show ?thesis
    using Remove_Service_directory(1) [OF ops tree R] by (simp add: dir_ok_def)
qed

text \<open>Removing a service whose requests are no longer in use.\<close>

lemma wf_remove:
  assumes wf: "well_formed s" and n: "sers s sn = Some n" and ops: "rb_ok ops"
    and s': "Services_rbtree s' = snd (Remove_Service ops (Services_rbtree s) (uri n))"
      "Services s' = remove1 sn (Services s)" "Services_count s' = Services_count s - 1"
      "Max_Working s' = Max_Working s - Max_Workers n" "linber_mutex s' = linber_mutex s"
      "sers s' = (sers s)(sn := None)"
    and rq: "\<And>a. a \<notin> set (owned n) \<Longrightarrow> reqs s' a = reqs s a"
    and bf: "\<And>b. b \<notin> set (owned_bufs (reqs s) n) \<Longrightarrow> bufs s' b = bufs s b"
  shows "well_formed s'"
proof -
  have sep: "set (owned n) \<inter> set (owned m) = {}"
    "set (owned_bufs (reqs s) n) \<inter> set (owned_bufs (reqs s) m) = {}"
    if "sers s sm = Some m" "sm \<noteq> sn" for sm m
    using wf n that by (auto simp: well_formed_def separate_def)
  have rq_m: "reqs s' a = reqs s a" if "sers s sm = Some m" "sm \<noteq> sn" "a \<in> set (owned m)" for sm m a
    using sep(1) [OF that(1,2)] that(3) by (intro rq) auto
  have bf_m: "bufs s' b = bufs s b"
    if "sers s sm = Some m" "sm \<noteq> sn" "b \<in> set (owned_bufs (reqs s) m)" for sm m b
    using sep(2) [OF that(1,2)] that(3) by (intro bf) auto
  have bufs_m: "owned_bufs (reqs s') m = owned_bufs (reqs s) m"
    if "sers s sm = Some m" "sm \<noteq> sn" for sm m
    by (rule owned_bufs_cong) (rule rq_m [OF that])
  have ok: "ser_ok (reqs s') (bufs s') m" if "sers s' sm = Some m" for sm m
  proof -
    from that s'(6) have m: "sers s sm = Some m" "sm \<noteq> sn" by (auto split: if_splits)
    show ?thesis
      by (rule ser_ok_frame [OF wf_serD [OF wf m(1)]]) (use rq_m bf_m m in blast)+
  qed
  have "separate s'"
    unfolding separate_def
  proof (intro allI impI)
    fix x y m k assume xy: "sers s' x = Some m" "sers s' y = Some k" "x \<noteq> y"
    with s'(6) have x: "sers s x = Some m" "x \<noteq> sn" and y: "sers s y = Some k" "y \<noteq> sn"
      by (auto split: if_splits)
    with wf xy(3) have "set (owned m) \<inter> set (owned k) = {} \<and>
        set (owned_bufs (reqs s) m) \<inter> set (owned_bufs (reqs s) k) = {}"
      unfolding well_formed_def separate_def by blast
    then show "set (owned m) \<inter> set (owned k) = {} \<and>
        set (owned_bufs (reqs s') m) \<inter> set (owned_bufs (reqs s') k) = {}"
      by (simp only: bufs_m [OF x] bufs_m [OF y])
  qed
  moreover have "dir_ok s'"
  proof -
    have d: "dir_ok s" using wf by (simp add: well_formed_def)
    then have tree: "uri_tree (Services_rbtree s)" by (simp add: dir_ok_def)
    have sn: "sn \<in> set (Services s)" using d n by (auto simp: dir_ok_def)
    obtain r where r: "Remove_Service ops (Services_rbtree s) (uri n) = (r, Services_rbtree s')"
      using s'(1) by (cases "Remove_Service ops (Services_rbtree s) (uri n)") simp
    with Remove_Service_directory(2) [OF ops tree r] service_in_directory [OF wf n]
    have "Remove_Service ops (Services_rbtree s) (uri n) = (Some sn, Services_rbtree s')" by simp
    from dir_ok_remove [OF d n ops this s'(2-4,6)] show ?thesis .
  qed
  ultimately show ?thesis
    using wf ok s'(5) by (simp add: well_formed_def)
qed


text \<open>Adding a service that owns nothing yet.\<close>

lemma dir_ok_add:
  assumes d: "dir_ok s" and fresh: "sers s sn = None" and ops: "rb_ok ops"
    and I: "Insert_ServiceNode ops k (uri n) sn (Services_rbtree s) = (True, Services_rbtree s')"
    and s': "Services s' = Services s @ [sn]" "Services_count s' = Services_count s + 1"
      "Max_Working s' = Max_Working s + Max_Workers n" "sers s' = (sers s)(sn \<mapsto> n)"
  shows "dir_ok s'"
proof -
  have tree: "uri_tree (Services_rbtree s)"
    and ms: "mset (map Service (conts (Services_rbtree s))) = mset (Services s)"
    and dom: "set (Services s) = dom (sers s)"
    using d by (simp_all add: dir_ok_def)
  have sn: "sn \<notin> set (Services s)" using dom fresh by auto
  obtain xs ys where c: "conts (Services_rbtree s) = xs @ ys"
    "conts (Services_rbtree s') = xs @ \<lparr>service_uri = uri n, Service = sn\<rparr> # ys"
    using Insert_ServiceNode_conts [OF ops tree I] by metis
  have "mset (map Service (conts (Services_rbtree s'))) = mset (Services s')"
    using ms unfolding c s'(1) by simp
  moreover have "Services_count s' = of_nat (length (Services s'))"
    using d s'(1,2) by (simp add: dir_ok_def)
  moreover have "Max_Working s' = (\<Sum>x \<leftarrow> Services s'. Max_Workers (the (sers s' x)))"
  proof -
    have "(\<Sum>x \<leftarrow> Services s. Max_Workers (the (sers s' x))) =
        (\<Sum>x \<leftarrow> Services s. Max_Workers (the (sers s x)))"
      using s'(4) sn by (intro arg_cong [where f = sum_list] map_cong) auto
    with d s'(1,3,4) show ?thesis by (simp add: dir_ok_def)
  qed
  moreover have "\<forall>c \<in> set (conts (Services_rbtree s')).
      \<exists>m. sers s' (Service c) = Some m \<and> uri m = service_uri c"
  proof
    fix c' assume c': "c' \<in> set (conts (Services_rbtree s'))"
    show "\<exists>m. sers s' (Service c') = Some m \<and> uri m = service_uri c'"
    proof (cases "c' \<in> set (conts (Services_rbtree s))")
      case True
      with d obtain m where "sers s (Service c') = Some m" "uri m = service_uri c'"
        by (auto simp: dir_ok_def)
      with fresh s'(4) show ?thesis by (cases "Service c' = sn") auto
    next
      case False
      with c' c s'(4) show ?thesis by auto
    qed
  qed
  moreover have "set (Services s') = dom (sers s')" and "distinct (Services s')"
    using s'(1,4) d sn dom by (auto simp: dir_ok_def)
  ultimately show ?thesis
    using Insert_ServiceNode_directory(1) [OF ops tree I] by (simp add: dir_ok_def)
qed

lemma wf_add:
  assumes wf: "well_formed s" and fresh: "sers s sn = None" and ops: "rb_ok ops"
    and I: "Insert_ServiceNode ops k (uri n) sn (Services_rbtree s) = (True, Services_rbtree s')"
    and s': "Services s' = Services s @ [sn]" "Services_count s' = Services_count s + 1"
      "Max_Working s' = Max_Working s + Max_Workers n" "sers s' = (sers s)(sn \<mapsto> n)"
      "linber_mutex s' = linber_mutex s" "reqs s' = reqs s" "bufs s' = bufs s"
    and n: "ser_ok (reqs s) (bufs s) n" "owned n = []"
  shows "well_formed s'"
proof -
  have "Completed_RequestsHead n = []" using n(2) by (simp add: owned_def)
  with n(2) have nobufs: "owned_bufs (reqs s) n = []" by (simp add: owned_bufs_def)
  have "separate s'"
    unfolding separate_def
  proof (intro allI impI)
    fix x y m k assume xy: "sers s' x = Some m" "sers s' y = Some k" "x \<noteq> y"
    have "m = n \<or> sers s x = Some m" and "k = n \<or> sers s y = Some k"
      using xy(1,2) unfolding s'(4) by (simp_all split: if_splits)
    then consider "m = n" | "k = n" | "sers s x = Some m" "sers s y = Some k" by blast
    then show "set (owned m) \<inter> set (owned k) = {} \<and>
        set (owned_bufs (reqs s') m) \<inter> set (owned_bufs (reqs s') k) = {}"
    proof cases
      case 3
      with wf xy(3) show ?thesis unfolding s'(6) well_formed_def separate_def by blast
    qed (use n(2) nobufs s'(6) in simp_all)
  qed
  moreover have "dir_ok s'"
    by (rule dir_ok_add [OF _ fresh ops I s'(1-4)]) (use wf in \<open>simp add: well_formed_def\<close>)
  moreover have "ser_ok (reqs s') (bufs s') m" if "sers s' x = Some m" for x m
    using that s'(4,6,7) n(1) wf by (auto simp: well_formed_def split: if_splits)
  ultimately show ?thesis
    using wf s'(5) by (simp add: well_formed_def)
qed

end
