(* ===== verification/Service_Props.thy ===== *)
theory Service_Props
  imports Invariant
begin

text \<open>
  What creating and destroying a service do, as equations: destroying aborts every waiting
  and every completed request exactly once and either removes the service or leaves it to
  its last worker; creating adds an empty service to the directory.
\<close>

section \<open>Taking and releasing a mutex\<close>

text \<open>An unlock moves inwards over the updates made under the lock, and cancels the lock.\<close>

lemma unlock_id: "\<not> service_mutex n \<Longrightarrow> n\<lparr>service_mutex := False\<rparr> = n"
  by simp

lemma unlock_push:
  "n\<lparr>Requests_rbtree := t, service_mutex := b\<rparr> = n\<lparr>service_mutex := b, Requests_rbtree := t\<rparr>"
  "n\<lparr>Completed_RequestsHead := as, service_mutex := b\<rparr> =
     n\<lparr>service_mutex := b, Completed_RequestsHead := as\<rparr>"
  "n\<lparr>Request_count := i, service_mutex := b\<rparr> = n\<lparr>service_mutex := b, Request_count := i\<rparr>"
  "n\<lparr>next_req_token := k, service_mutex := b\<rparr> = n\<lparr>service_mutex := b, next_req_token := k\<rparr>"
  "n\<lparr>worker_slots := ws, service_mutex := b\<rparr> = n\<lparr>service_mutex := b, worker_slots := ws\<rparr>"
  "n\<lparr>count_registered := i, service_mutex := b\<rparr> = n\<lparr>service_mutex := b, count_registered := i\<rparr>"
  "n\<lparr>next_id := i, service_mutex := b\<rparr> = n\<lparr>service_mutex := b, next_id := i\<rparr>"
  "n\<lparr>sem_for_request := j, service_mutex := b\<rparr> = n\<lparr>service_mutex := b, sem_for_request := j\<rparr>"
  by simp_all

lemma linber_unlock:
  "\<not> linber_mutex s \<Longrightarrow> s\<lparr>linber_mutex := False\<rparr> = s"
  "s\<lparr>sers := x1, linber_mutex := b\<rparr> = s\<lparr>linber_mutex := b, sers := x1\<rparr>"
  "s\<lparr>Services_rbtree := x2, linber_mutex := b\<rparr> = s\<lparr>linber_mutex := b, Services_rbtree := x2\<rparr>"
  "s\<lparr>Services := x3, linber_mutex := b\<rparr> = s\<lparr>linber_mutex := b, Services := x3\<rparr>"
  "s\<lparr>Services_count := x4, linber_mutex := b\<rparr> = s\<lparr>linber_mutex := b, Services_count := x4\<rparr>"
  "s\<lparr>Max_Working := x5, linber_mutex := b\<rparr> = s\<lparr>linber_mutex := b, Max_Working := x5\<rparr>"
  by simp_all

lemmas unlocking = unlock_id unlock_push linber_unlock

section \<open>Aborting requests\<close>

definition abort :: "RequestNode \<Rightarrow> RequestNode" where
  "abort r = r\<lparr>result_cmd := LINBER_ABORT_REQUEST, Request_sem := Suc (Request_sem r)\<rparr>"

definition abort_all :: "(addr \<rightharpoonup> RequestNode) \<Rightarrow> addr list \<Rightarrow> (addr \<rightharpoonup> RequestNode)" where
  "abort_all rq as = (\<lambda>a. if a \<in> set as then map_option abort (rq a) else rq a)"

lemma abort_all_Nil [simp]: "abort_all rq [] = rq"
  by (simp add: abort_all_def)

lemma abort_all_other [simp]: "a \<notin> set as \<Longrightarrow> abort_all rq as a = rq a"
  by (simp add: abort_all_def)

lemma abort_all_None [simp]: "abort_all rq as a = None \<longleftrightarrow> rq a = None"
  by (simp add: abort_all_def)

lemma abort_all_Cons:
  "rq a = Some r \<Longrightarrow> a \<notin> set as \<Longrightarrow> abort_all (rq(a \<mapsto> abort r)) as = abort_all rq (a # as)"
  by (auto simp: abort_all_def)

lemma abort_all_append:
  "set as \<inter> set bs = {} \<Longrightarrow> abort_all (abort_all rq as) bs = abort_all rq (as @ bs)"
  by (auto simp: abort_all_def fun_eq_iff)

lemma abort_simps [simp]:
  "result_cmd (abort r) = LINBER_ABORT_REQUEST"
  "Request_sem (abort r) = Suc (Request_sem r)"
  "client (abort r) = client r" "token (abort r) = token r"
  "abs_deadline_ns (abort r) = abs_deadline_ns r"
  "request_len (abort r) = request_len r" "request_shm_mode (abort r) = request_shm_mode r"
  "request (abort r) = request r"
  by (simp_all add: abort_def)

lemma request_buf_abort [simp]: "request_buf (abort r) = request_buf r"
  by (simp add: request_buf_def)

lemma request_ok_abort [simp]: "request_ok bf (abort r) = request_ok bf r"
  by (simp add: request_ok_def)

lemma destroy_request_eq:
  "reqs s a = Some r \<Longrightarrow> destroy_request a s = Inr (s\<lparr>reqs := (reqs s)(a \<mapsto> abort r)\<rparr>)"
  by (simp add: destroy_request_def steps abort_def)


section \<open>The loops of destroy_service\<close>

lemma destroy_waiting_drains:
  assumes "rb_ok (rb_reqs env)" and "sers s sn = Some n"
    and "no_empty_queue (Requests_rbtree n)"
    and "length (waiting (Requests_rbtree n)) < fuel"
    and "distinct (map snd (waiting (Requests_rbtree n)))"
    and "\<forall>x \<in> set (waiting (Requests_rbtree n)). reqs s (snd x) \<noteq> None"
  shows "destroy_waiting fuel env sn s =
    Inr (s\<lparr>sers := (sers s)(sn \<mapsto> n\<lparr>Requests_rbtree := Leaf\<rparr>),
           reqs := abort_all (reqs s) (map snd (waiting (Requests_rbtree n)))\<rparr>)"
  using assms(2-)
proof (induction fuel arbitrary: s n)
  case (Suc fuel)
  show ?case
  proof (cases "waiting (Requests_rbtree n)")
    case Nil
    with Suc.prems have "Requests_rbtree n = Leaf" by (simp add: waiting_eq_Nil)
    with assms(1) Suc.prems(1) show ?thesis by (simp add: steps fun_upd_def)
  next
    case (Cons x rest)
    obtain d a where x: "x = (d, a)" by fastforce
    from Cons Suc.prems(5) x obtain r where r: "reqs s a = Some r" by auto
    obtain t' where t': "Remove_first_request (rb_reqs env) (Requests_rbtree n) = (Some a, t')"
      "waiting t' = rest" "no_empty_queue t'"
      using Remove_first_waiting [OF assms(1) Suc.prems(2) Cons [unfolded x]] by metis
    let ?s = "s\<lparr>sers := (sers s)(sn \<mapsto> n\<lparr>Requests_rbtree := t'\<rparr>), reqs := (reqs s)(a \<mapsto> abort r)\<rparr>"
    have "destroy_waiting (Suc fuel) env sn s = destroy_waiting fuel env sn ?s"
      using Suc.prems(1) t'(1) r by (simp add: steps destroy_request_eq)
    also have "\<dots> = Inr (?s\<lparr>sers := (sers ?s)(sn \<mapsto> n\<lparr>Requests_rbtree := t', Requests_rbtree := Leaf\<rparr>),
        reqs := abort_all (reqs ?s) (map snd (waiting (Requests_rbtree (n\<lparr>Requests_rbtree := t'\<rparr>))))\<rparr>)"
      using Suc.prems Cons x t'(2,3) by (intro Suc.IH) auto
    also have "abort_all (reqs ?s) (map snd (waiting (Requests_rbtree (n\<lparr>Requests_rbtree := t'\<rparr>)))) =
        abort_all (reqs s) (map snd (waiting (Requests_rbtree n)))"
      using Suc.prems(4) Cons x t'(2) r by (simp add: abort_all_Cons)
    finally show ?thesis by (simp del: fun_upd_apply destroy_waiting.simps)
  qed
qed simp

lemma destroy_completed_eq:
  assumes "sers s sn = Some n" and "Completed_RequestsHead n = as" and "distinct as"
    and "\<forall>a \<in> set as. reqs s a \<noteq> None"
  shows "destroy_completed sn as s =
    Inr (s\<lparr>sers := (sers s)(sn \<mapsto> n\<lparr>Completed_RequestsHead := []\<rparr>),
           reqs := abort_all (reqs s) as\<rparr>)"
  using assms
proof (induction as arbitrary: s n)
  case Nil
  then have "n\<lparr>Completed_RequestsHead := []\<rparr> = n" by simp
  with Nil show ?case by (simp add: fun_upd_idem)
next
  case (Cons a as)
  then obtain r where r: "reqs s a = Some r" by auto
  let ?n = "n\<lparr>Completed_RequestsHead := as\<rparr>"
  let ?s = "s\<lparr>sers := (sers s)(sn \<mapsto> ?n), reqs := (reqs s)(a \<mapsto> abort r)\<rparr>"
  have "destroy_completed sn (a # as) s = destroy_completed sn as ?s"
    using Cons.prems r by (simp add: steps destroy_request_eq)
  also have "\<dots> = Inr (?s\<lparr>sers := (sers ?s)(sn \<mapsto> ?n\<lparr>Completed_RequestsHead := []\<rparr>),
      reqs := abort_all (reqs ?s) as\<rparr>)"
    using Cons.prems by (intro Cons.IH) auto
  finally show ?case
    using Cons.prems(3) r by (simp add: abort_all_Cons del: fun_upd_apply destroy_completed.simps)
qed


section \<open>destroy_service\<close>

text \<open>The node once its requests are gone, and the state once it is unlinked and freed.\<close>

definition drained :: "ServiceNode \<Rightarrow> ServiceNode" where
  "drained n = n\<lparr>Requests_rbtree := Leaf, Completed_RequestsHead := [],
     sem_for_request := sem_for_request n + unat (count_registered n), destroy_me := True\<rparr>"

definition unlinked :: "env \<Rightarrow> addr \<Rightarrow> ServiceNode \<Rightarrow> kstate \<Rightarrow> kstate" where
  "unlinked env sn n s = s\<lparr>
     Services_count := Services_count s - 1,
     Services := remove1 sn (Services s),
     Services_rbtree := snd (Remove_Service (rb_sers env) (Services_rbtree s) (uri n)),
     Max_Working := Max_Working s - Max_Workers n,
     sers := (sers s)(sn := None)\<rparr>"

text \<open>The requests a destroyed service wakes: all but those being served.\<close>

definition idle_requests :: "ServiceNode \<Rightarrow> addr list" where
  "idle_requests n = map snd (waiting (Requests_rbtree n)) @ Completed_RequestsHead n"

lemma clean_service_eq:
  assumes "sers s sn = Some n"
  shows "clean_service env sn s =
    (if sn \<in> set (Services s) then Inr (unlinked env sn n s) else Inl List_corruption)"
  using assms by (simp add: clean_service_def unlinked_def steps)

text \<open>A service that is not in the list cannot be taken out of it.\<close>

lemma destroy_service_cases:
  assumes "rb_ok (rb_reqs env)" and n: "sers s sn = Some n" and ok: "ser_ok (reqs s) (bufs s) n"
  shows "destroy_service env sn s =
    (let s' = s\<lparr>reqs := abort_all (reqs s) (idle_requests n)\<rparr>
     in if count_registered n = 0
        then (if sn \<in> set (Services s) then Inr (unlinked env sn n s') else Inl List_corruption)
        else Inr (s'\<lparr>sers := (sers s)(sn \<mapsto> drained n)\<rparr>))"
proof -
  let ?n1 = "n\<lparr>service_mutex := True\<rparr>"
  let ?s1 = "s\<lparr>sers := (sers s)(sn \<mapsto> ?n1)\<rparr>"
  let ?W = "map snd (waiting (Requests_rbtree n))"
  let ?s2 = "?s1\<lparr>sers := (sers ?s1)(sn \<mapsto> ?n1\<lparr>Requests_rbtree := Leaf\<rparr>),
    reqs := abort_all (reqs ?s1) ?W\<rparr>"
  let ?s3 = "?s2\<lparr>sers := (sers ?s2)(sn \<mapsto> ?n1\<lparr>Requests_rbtree := Leaf, Completed_RequestsHead := []\<rparr>),
    reqs := abort_all (reqs ?s2) (Completed_RequestsHead n)\<rparr>"
  have m: "\<not> service_mutex n" and dist: "distinct (owned n)" using ok by (simp_all add: ser_ok_def)
  have alloc: "\<forall>a \<in> set (owned n). reqs s a \<noteq> None" using ser_ok_owned [OF ok] by fastforce
  have lock: "mutex_lock_ser sn s = Inr ?s1" using n m by (simp add: steps)
  have W: "destroy_waiting (Suc (length (waiting (Requests_rbtree ?n1)))) env sn ?s1 = Inr ?s2"
    using destroy_waiting_drains [OF assms(1), of ?s1 sn ?n1] ok dist alloc
    by (simp add: ser_ok_def owned_def del: destroy_waiting.simps)
  have C: "destroy_completed sn (Completed_RequestsHead n) ?s2 = Inr ?s3"
    using destroy_completed_eq [of ?s2 sn "?n1\<lparr>Requests_rbtree := Leaf\<rparr>"] dist alloc
    by (simp add: owned_def)
  have A: "abort_all (abort_all (reqs s) ?W) (Completed_RequestsHead n) =
      abort_all (reqs s) (idle_requests n)"
    unfolding idle_requests_def by (rule abort_all_append) (use dist in \<open>auto simp: owned_def\<close>)
  have D: "n\<lparr>Requests_rbtree := Leaf, Completed_RequestsHead := [],
      sem_for_request := sem_for_request n + unat (count_registered n), destroy_me := True,
      service_mutex := False\<rparr> = drained n"
    using m by (cases n) (simp add: drained_def)
  show ?thesis
    using lock W C A
    by (simp del: destroy_waiting.simps add: destroy_service_def Let_def load_ser_def
        modify_ser_def clean_service_eq mutex_unlock_ser_def unlinked_def D)
qed

lemma destroy_service_eq:
  assumes "rb_ok (rb_reqs env)" and "sers s sn = Some n" and "ser_ok (reqs s) (bufs s) n"
    and "sn \<in> set (Services s)"
  shows "destroy_service env sn s =
    (let s' = s\<lparr>reqs := abort_all (reqs s) (idle_requests n)\<rparr>
     in if count_registered n = 0 then Inr (unlinked env sn n s')
        else Inr (s'\<lparr>sers := (sers s)(sn \<mapsto> drained n)\<rparr>))"
  using destroy_service_cases [OF assms(1-3)] assms(4) by (simp add: Let_def)

lemma ser_ok_drained:
  assumes "ser_ok rq bf n"
  shows "ser_ok (abort_all rq (idle_requests n)) bf (drained n)"
    and "set (owned (drained n)) \<subseteq> set (owned n)"
    and "set (owned_bufs (abort_all rq (idle_requests n)) (drained n)) \<subseteq> set (owned_bufs rq n)"
proof -
  have own: "owned (drained n) = serving_list (worker_slots n)"
    by (simp add: owned_def drained_def)
  then show sub: "set (owned (drained n)) \<subseteq> set (owned n)" by (auto simp: owned_def)
  have same: "abort_all rq (idle_requests n) a = rq a" if "a \<in> set (serving_list (worker_slots n))" for a
    using assms that by (intro abort_all_other) (auto simp: idle_requests_def ser_ok_def owned_def)
  have bufs: "owned_bufs (abort_all rq (idle_requests n)) (drained n) =
      bufs_at request_buf rq (serving_list (worker_slots n))"
    unfolding owned_bufs_def own using bufs_at_cong [OF same] by (simp add: drained_def)
  then show "set (owned_bufs (abort_all rq (idle_requests n)) (drained n)) \<subseteq> set (owned_bufs rq n)"
    by (auto simp: owned_bufs_def owned_def)
  have "distinct (bufs_at request_buf rq (serving_list (worker_slots n)))"
    using assms by (simp add: ser_ok_def owned_bufs_def owned_def)
  then show "ser_ok (abort_all rq (idle_requests n)) bf (drained n)"
    using assms own same bufs
    by (auto simp: ser_ok_def drained_def owned_def slots_ok_def)
qed

lemma unlinked_wf:
  assumes "well_formed s" and "rb_ok (rb_sers env)" and "sers s sn = Some n"
  shows "well_formed (unlinked env sn n (s\<lparr>reqs := abort_all (reqs s) (idle_requests n)\<rparr>))"
  by (rule wf_remove [OF assms(1,3,2)])
    (auto simp: unlinked_def idle_requests_def owned_def)

lemma wf_Services: "well_formed s \<Longrightarrow> sers s sn = Some n \<Longrightarrow> sn \<in> set (Services s)"
  by (auto simp: well_formed_def dir_ok_def)

lemma drained_wf:
  assumes "well_formed s" and "sers s sn = Some n"
  shows "well_formed (s\<lparr>reqs := abort_all (reqs s) (idle_requests n), sers := (sers s)(sn \<mapsto> drained n)\<rparr>)"
proof (rule wf_update [OF assms, where n' = "drained n"])
  note ok = ser_ok_drained [OF wf_serD [OF assms]]
  show "a \<in> set (owned n) \<or> reqs s a = None" if "a \<in> set (owned (drained n))" for a
    using that ok(2) by blast
qed (use ser_ok_drained [OF wf_serD [OF assms]] in
    \<open>auto simp: drained_def same_globals_def idle_requests_def owned_def\<close>)

lemma destroy_service_wf:
  assumes "well_formed s" and "rb_ok (rb_reqs env)" and "rb_ok (rb_sers env)" and "sers s sn = Some n"
  obtains s' where "destroy_service env sn s = Inr s'" and "well_formed s'"
  using destroy_service_eq [OF assms(2,4) wf_serD [OF assms(1,4)] wf_Services [OF assms(1,4)]]
    unlinked_wf [OF assms(1,3,4)] drained_wf [OF assms(1,4)]
  by (auto simp: Let_def split: if_splits)


section \<open>create_service\<close>

definition new_service :: "env \<Rightarrow> bytes \<Rightarrow> registration \<Rightarrow> ServiceNode \<Rightarrow> ServiceNode" where
  "new_service env u reg garbage = (fill_service (get_random_bytes env) u reg garbage)\<lparr>
     worker_slots := replicate (unat (reg_Max_Working reg)) \<lparr>task = None, serving = None\<rparr>\<rparr>"

definition created :: "env \<Rightarrow> bytes \<Rightarrow> registration \<Rightarrow> addr \<Rightarrow> ServiceNode \<Rightarrow> kstate \<Rightarrow> kstate" where
  "created env u reg sn garbage s = s\<lparr>
     sers := (sers s)(sn \<mapsto> new_service env u reg garbage),
     Services_rbtree := snd (Insert_ServiceNode (rb_sers env) True u sn (Services_rbtree s)),
     Services := Services s @ [sn],
     Services_count := Services_count s + 1,
     Max_Working := Max_Working s + reg_Max_Working reg\<rparr>"

lemma new_service_simps [simp]:
  "uri (new_service env u reg g) = u" "Max_Workers (new_service env u reg g) = reg_Max_Working reg"
  "ser_token (new_service env u reg g) = get_random_bytes env"
  "next_id (new_service env u reg g) = 0" "count_registered (new_service env u reg g) = 0"
  "destroy_me (new_service env u reg g) = False" "Request_count (new_service env u reg g) = 0"
  "next_req_token (new_service env u reg g) = 0" "sem_for_request (new_service env u reg g) = 0"
  "period (new_service env u reg g) = service_period_ns reg"
  "budget (new_service env u reg g) = service_budget_ns reg"
  "Requests_rbtree (new_service env u reg g) = Leaf"
  "Completed_RequestsHead (new_service env u reg g) = []"
  "owned (new_service env u reg g) = []"
  by (simp_all add: new_service_def fill_service_def owned_def)

lemma new_service_ok: "ser_ok rq bf (new_service env u reg g)"
  by (rule ser_okI)
    (simp_all add: owned_bufs_def, simp_all add: new_service_def fill_service_def slots_ok_def)

text \<open>A node that was never linked into the list cannot be destroyed.\<close>

lemma destroy_unlinked:
  assumes "rb_ok (rb_reqs env)" and "sers s sn = Some n" and "sn \<notin> set (Services s)"
    and "Requests_rbtree n = Leaf" "Completed_RequestsHead n = []" "count_registered n = 0"
    and "\<not> service_mutex n"
  shows "destroy_service env sn s = Inl List_corruption"
proof -
  have "n\<lparr>service_mutex := True, Requests_rbtree := Leaf\<rparr> = n\<lparr>service_mutex := True\<rparr>"
    using assms(4) by (cases n) simp
  with assms show ?thesis
    by (simp add: destroy_service_def steps fun_upd_idem clean_service_def)
qed

lemma Insert_ServiceNode_succeeds:
  assumes "uri_tree t" and "directory t (cstr u) = None"
  shows "Insert_ServiceNode ops True u sn t = (True, snd (Insert_ServiceNode ops True u sn t))"
    and "Insert_ServiceNode ops False u sn t = (False, t)"
  using Insert_ServiceNode_fails [OF assms(1)] assms
  by (auto simp: prod_eq_iff Insert_ServiceNode_def get_ServiceNode_def
      split: rb_place.split dest: get_ServiceNode_directory [of t u])

lemma create_service_eq:
  assumes wf: "well_formed s" and env: "env_ok env s"
    and none: "directory (Services_rbtree s) (cstr u) = None"
  shows "create_service env u reg s =
    (case kmalloc_service env of
       None \<Rightarrow> Inr (None, s)
     | Some (sn, g) \<Rightarrow>
         if kmalloc_slots env \<and> kmalloc_container env
         then Inr (Some sn, created env u reg sn g s) else Inl List_corruption)"
proof (cases "kmalloc_service env")
  case (Some x)
  then obtain sn g where k: "kmalloc_service env = Some (sn, g)" by (cases x) simp
  with env have fresh: "sers s sn = None" and ops: "rb_ok (rb_reqs env)"
    by (simp_all add: env_ok_def)
  from wf fresh have sn: "sn \<notin> set (Services s)" and lock: "\<not> linber_mutex s"
    and tree: "uri_tree (Services_rbtree s)" by (auto simp: well_formed_def dir_ok_def)
  note ins = Insert_ServiceNode_succeeds [OF tree none, of "rb_sers env" sn]
  let ?n = "fill_service (get_random_bytes env) u reg g"
  show ?thesis
  proof (cases "kmalloc_slots env")
    case False
    have "destroy_service env sn (s\<lparr>sers := (sers s)(sn \<mapsto> ?n)\<rparr>) = Inl List_corruption"
      by (rule destroy_unlinked [OF ops, where n = ?n]) (use sn in \<open>simp_all add: fill_service_def\<close>)
    with False k show ?thesis by (simp add: create_service_def Let_def)
  next
    case slots: True
    show ?thesis
    proof (cases "kmalloc_container env")
      case True
      obtain t where "Insert_ServiceNode (rb_sers env) True u sn (Services_rbtree s) = (True, t)"
        using ins(1) by metis
      with True slots k lock show ?thesis
        by (simp add: create_service_def Let_def steps created_def new_service_def
            fill_service_def unlocking)
    next
      case False
      have "destroy_service env sn (s\<lparr>sers := (sers s)(sn \<mapsto> new_service env u reg g)\<rparr>)
          = Inl List_corruption"
        by (rule destroy_unlinked [OF ops, where n = "new_service env u reg g"])
          (use sn in \<open>simp_all, simp_all add: new_service_def fill_service_def\<close>)
      with False slots k lock ins(2) show ?thesis
        by (simp add: create_service_def Let_def steps new_service_def fill_service_def unlocking)
    qed
  qed
qed (simp add: create_service_def)

lemma created_wf:
  assumes wf: "well_formed s" and env: "env_ok env s"
    and none: "directory (Services_rbtree s) (cstr u) = None"
    and k: "kmalloc_service env = Some (sn, g)"
  shows "well_formed (created env u reg sn g s)"
proof -
  from wf have tree: "uri_tree (Services_rbtree s)" by (simp add: well_formed_def dir_ok_def)
  from env k have fresh: "sers s sn = None" and ops: "rb_ok (rb_sers env)"
    by (simp_all add: env_ok_def)
  show ?thesis
    by (rule wf_add [OF wf fresh ops, where n = "new_service env u reg g" and k = True])
      (use Insert_ServiceNode_succeeds(1) [OF tree none] new_service_ok in
        \<open>simp_all add: created_def\<close>)
qed

lemma created_directory:
  assumes "well_formed s" and "env_ok env s" and "directory (Services_rbtree s) (cstr u) = None"
  shows "directory (Services_rbtree (created env u reg sn g s)) =
    (directory (Services_rbtree s))(cstr u \<mapsto> sn)"
proof -
  from assms have "uri_tree (Services_rbtree s)" and "rb_ok (rb_sers env)"
    by (simp_all add: well_formed_def dir_ok_def env_ok_def)
  from Insert_ServiceNode_directory(3) [OF this(2,1) Insert_ServiceNode_succeeds(1) [OF this(1) assms(3)]]
  show ?thesis by (simp add: created_def)
qed

end
