(* ===== verification/Request_Props.thy ===== *)
theory Request_Props
  imports Service_Props
begin

text \<open>
  The request operations of a well-formed service as equations: what queueing, finding and
  taking requests return on every branch, and the state they leave.
\<close>

section \<open>Requests in the heap\<close>

lemma ser_ok_unlocked: "ser_ok rq bf n \<Longrightarrow> \<not> service_mutex n"
  by (simp add: ser_ok_def)


text \<open>The lists a service owns can be searched without touching freed memory.\<close>

lemma token_at_simps [simp]:
  "token_at (s\<lparr>sers := f\<rparr>) = token_at s" "token_at (s\<lparr>umem := u\<rparr>) = token_at s"
  by (simp_all add: token_at_def fun_eq_iff)

lemma token_at_None [simp]: "token_at s a = None \<longleftrightarrow> reqs s a = None"
  by (simp add: token_at_def)

lemma find_token_owned:
  assumes "ser_ok (reqs s) (bufs s) n" and "set as \<subseteq> set (owned n)"
  obtains r where "find_token (token_at s) tok as = Inr r"
  using find_token_total [of as "token_at s"] assms ser_ok_owned [OF assms(1)]
  by (metis option.distinct(1) subsetD token_at_None)

lemma get_Completed_Request_eq:
  assumes "sers s sn = Some n" and "ser_ok (reqs s) (bufs s) n"
    and "find_token (token_at s) tok (Completed_RequestsHead n) = Inr found"
  shows "get_Completed_Request sn tok s =
    (case found of
       None \<Rightarrow> Inr (Head_entry, s)
     | Some a \<Rightarrow> Inr (Entry a, s\<lparr>sers := (sers s)(sn \<mapsto>
         n\<lparr>Completed_RequestsHead := remove1 a (Completed_RequestsHead n)\<rparr>)\<rparr>))"
  using assms ser_ok_unlocked [OF assms(2)]
  by (cases found)
    (simp_all add: get_Completed_Request_def steps unlocking fun_upd_idem)

lemma get_request_eq:
  assumes "rb_ok (rb_reqs env)" and "sers s sn = Some n" and "no_empty_queue (Requests_rbtree n)"
  shows "waiting (Requests_rbtree n) = [] \<Longrightarrow> get_request env sn s = Inr (None, s)"
    and "waiting (Requests_rbtree n) = (d, a) # rest \<Longrightarrow>
      \<exists>t. get_request env sn s = Inr (Some a, s\<lparr>sers := (sers s)(sn \<mapsto>
            n\<lparr>Requests_rbtree := t, Request_count := Request_count n - 1\<rparr>)\<rparr>) \<and>
          waiting t = rest \<and> no_empty_queue t"
proof -
  assume "waiting (Requests_rbtree n) = []"
  with assms(3) have L: "Requests_rbtree n = Leaf" by (simp add: waiting_eq_Nil)
  then have "n\<lparr>Requests_rbtree := Leaf\<rparr> = n" by simp
  with L assms(1,2) show "get_request env sn s = Inr (None, s)"
    by (simp add: get_request_def steps fun_upd_idem)
next
  assume "waiting (Requests_rbtree n) = (d, a) # rest"
  from Remove_first_waiting [OF assms(1,3) this] obtain t where
    "Remove_first_request (rb_reqs env) (Requests_rbtree n) = (Some a, t)"
    "waiting t = rest" "no_empty_queue t" by metis
  with assms(2) show "\<exists>t. get_request env sn s = Inr (Some a, s\<lparr>sers := (sers s)(sn \<mapsto>
      n\<lparr>Requests_rbtree := t, Request_count := Request_count n - 1\<rparr>)\<rparr>) \<and>
      waiting t = rest \<and> no_empty_queue t"
    by (intro exI [of _ t]) (simp add: get_request_def steps)
qed


section \<open>Queueing\<close>

text \<open>The service after a request with deadline d was queued at address a.\<close>

definition queued :: "env \<Rightarrow> u64 \<Rightarrow> addr \<Rightarrow> ServiceNode \<Rightarrow> ServiceNode" where
  "queued env d a n = n\<lparr>next_req_token := next_req_token n + 1,
     Requests_rbtree := snd (Insert_ReqNode_Sorted_by_Deadline (rb_reqs env)
       (kmalloc_container env) d a (Requests_rbtree n)),
     Request_count := Request_count n + 1, sem_for_request := Suc (sem_for_request n)\<rparr>"

definition new_request ::
    "env \<Rightarrow> ServiceNode \<Rightarrow> addr \<Rightarrow> u32 \<Rightarrow> bool \<Rightarrow> key_t \<Rightarrow> u64 \<Rightarrow> RequestNode \<Rightarrow> RequestNode" where
  "new_request env n buffer len shm key d garbage =
     fill_request (current env) (next_req_token n) d shm key buffer len
       (garbage\<lparr>result_cmd := LINBER_ABORT_REQUEST, Request_sem := 0\<rparr>)"

lemma new_request_simps [simp]:
  "client (new_request env n b len shm key d g) = current env"
  "token (new_request env n b len shm key d g) = next_req_token n"
  "abs_deadline_ns (new_request env n b len shm key d g) = d"
  "request_len (new_request env n b len shm key d g) = len"
  "request_shm_mode (new_request env n b len shm key d g) = shm"
  "Request_sem (new_request env n b len shm key d g) = 0"
  "result_cmd (new_request env n b len shm key d g) = LINBER_ABORT_REQUEST"
  "\<not> shm \<Longrightarrow> request (new_request env n b len shm key d g) = b"
  "shm \<Longrightarrow> shm_key (request (new_request env n b len shm key d g)) = key"
  by (simp_all add: new_request_def fill_request_def Let_def)

lemma enqueue_request_eq:
  assumes "sers s sn = Some n" and "\<not> service_mutex n"
    and "kmalloc_request env = Some (a, g)"
    and "Insert_ReqNode_Sorted_by_Deadline (rb_reqs env) (kmalloc_container env) d a
           (Requests_rbtree n) = (ok, t)"
  shows "enqueue_request_for_service env sn b len shm key d s =
    (let r = new_request env n b len shm key d g
     in if ok then Inr (Some a, s\<lparr>sers := (sers s)(sn \<mapsto> queued env d a n), reqs := (reqs s)(a \<mapsto> r)\<rparr>)
        else Inr (None, s\<lparr>sers := (sers s)(sn \<mapsto> n\<lparr>next_req_token := next_req_token n + 1\<rparr>),
                          reqs := (reqs s)(a \<mapsto> abort r)\<rparr>))"
  using assms
  by (simp add: enqueue_request_for_service_def create_Request_def steps Let_def unlocking
      queued_def new_request_def destroy_request_eq)

lemma enqueue_request_no_memory:
  "kmalloc_request env = None \<Longrightarrow>
    enqueue_request_for_service env sn b len shm key d s = Inr (None, s)"
  by (simp add: enqueue_request_for_service_def create_Request_def)


section \<open>Queueing keeps the state well-formed\<close>

lemma queued_simps [simp]:
  "service_mutex (queued env d a n) = service_mutex n"
  "worker_slots (queued env d a n) = worker_slots n"
  "Completed_RequestsHead (queued env d a n) = Completed_RequestsHead n"
  "uri (queued env d a n) = uri n" "Max_Workers (queued env d a n) = Max_Workers n"
  "destroy_me (queued env d a n) = destroy_me n" "next_id (queued env d a n) = next_id n"
  "Request_count (queued env d a n) = Request_count n + 1"
  "next_req_token (queued env d a n) = next_req_token n + 1"
  "sem_for_request (queued env d a n) = Suc (sem_for_request n)"
  "ser_token (queued env d a n) = ser_token n"
  "slots_ok (queued env d a n) = slots_ok n"
  by (simp_all add: queued_def slots_ok_def)

lemma ser_ok_queued:
  assumes ok: "ser_ok rq bf n" and fresh: "rq a = None"
    and ops: "rb_ok (rb_reqs env)"
    and I: "Insert_ReqNode_Sorted_by_Deadline (rb_reqs env) (kmalloc_container env) d a
              (Requests_rbtree n) = (True, t)"
    and r: "abs_deadline_ns r = d" "request_ok bf r"
    and newbuf: "set (request_buf r) \<inter> set (owned_bufs rq n) = {}"
  shows "ser_ok (rq(a \<mapsto> r)) bf (queued env d a n)"
    and "set (owned (queued env d a n)) = insert a (set (owned n))"
    and "set (owned_bufs (rq(a \<mapsto> r)) (queued env d a n)) =
      set (request_buf r) \<union> set (owned_bufs rq n)"
proof -
  from Insert_waiting [OF ops I] obtain xs ys where
    w: "waiting (Requests_rbtree n) = xs @ ys" "waiting t = xs @ (d, a) # ys" by metis
  have t: "Requests_rbtree (queued env d a n) = t" using I by (simp add: queued_def)
  have notin: "a \<notin> set (owned n)" using ser_ok_owned [OF ok] fresh by fastforce
  then have a: "a \<notin> snd ` set xs" "a \<notin> snd ` set ys" "a \<notin> set (serving_list (worker_slots n))"
    "a \<notin> set (Completed_RequestsHead n)" by (auto simp: owned_def w)
  show own: "set (owned (queued env d a n)) = insert a (set (owned n))"
    by (auto simp: owned_def t w)
  have bufs: "owned_bufs (rq(a \<mapsto> r)) (queued env d a n) = bufs_at request_buf rq (map snd xs) @
      request_buf r @ bufs_at request_buf rq (map snd ys) @
      bufs_at request_buf rq (serving_list (worker_slots n)) @
      bufs_at request_buf rq (Completed_RequestsHead n) @
      bufs_at response_buf rq (Completed_RequestsHead n)"
    using a by (simp add: owned_bufs_def owned_def t w)
  have old: "owned_bufs rq n = bufs_at request_buf rq (map snd xs) @
      bufs_at request_buf rq (map snd ys) @ bufs_at request_buf rq (serving_list (worker_slots n)) @
      bufs_at request_buf rq (Completed_RequestsHead n) @
      bufs_at response_buf rq (Completed_RequestsHead n)"
    by (simp add: owned_bufs_def owned_def w)
  show "set (owned_bufs (rq(a \<mapsto> r)) (queued env d a n)) =
      set (request_buf r) \<union> set (owned_bufs rq n)"
    unfolding bufs old by auto
  have "distinct (owned (queued env d a n))"
    using ok a by (auto simp: ser_ok_def owned_def t w)
  moreover have "distinct (owned_bufs (rq(a \<mapsto> r)) (queued env d a n))"
    using ok newbuf unfolding ser_ok_def bufs old by (auto simp: request_buf_def)
  moreover have "no_empty_queue t" using Insert_no_empty_queue [OF ops I] ok by (simp add: ser_ok_def)
  moreover have "\<forall>x \<in> set (owned (queued env d a n)). \<exists>r'. (rq(a \<mapsto> r)) x = Some r' \<and> request_ok bf r'"
    unfolding own using ok r(2) by (simp add: ser_ok_def)
  moreover have "\<forall>(d', x) \<in> set (waiting t). \<exists>r'. (rq(a \<mapsto> r)) x = Some r' \<and> abs_deadline_ns r' = d'"
  proof (clarify)
    fix d' x assume "(d', x) \<in> set (waiting t)"
    then consider "d' = d" "x = a" | "(d', x) \<in> set (waiting (Requests_rbtree n))"
      unfolding w by auto
    then show "\<exists>r'. (rq(a \<mapsto> r)) x = Some r' \<and> abs_deadline_ns r' = d'"
    proof cases
      case 2
      with notin have "x \<noteq> a" by (force simp: owned_def)
      with ser_ok_waiting [OF ok 2] show ?thesis by simp
    qed (use r(1) in simp)
  qed
  moreover have "\<forall>x \<in> set (Completed_RequestsHead n). \<exists>r'. (rq(a \<mapsto> r)) x = Some r' \<and> response_ok bf r'"
    using ok a by (auto simp: ser_ok_def)
  ultimately show "ser_ok (rq(a \<mapsto> r)) bf (queued env d a n)"
    using ok unfolding ser_ok_def t queued_simps by (simp add: w)
qed

text \<open>
  A request goes into the tree of a well-formed state, with its payload in a buffer of its
  own or in shared memory.
\<close>

lemma wf_queued:
  assumes wf: "well_formed s" and n: "sers s sn = Some n" and fresh: "reqs s a = None"
    and ops: "rb_ok (rb_reqs env)"
    and I: "Insert_ReqNode_Sorted_by_Deadline (rb_reqs env) (kmalloc_container env) d a
              (Requests_rbtree n) = (True, t)"
    and r: "abs_deadline_ns r = d" "request_ok bf r"
    and bf: "\<And>b. bufs s b \<noteq> None \<Longrightarrow> bf b = bufs s b"
    and newbuf: "\<And>b. b \<in> set (request_buf r) \<Longrightarrow> bufs s b = None"
  shows "well_formed (s\<lparr>bufs := bf, sers := (sers s)(sn \<mapsto> queued env d a n), reqs := (reqs s)(a \<mapsto> r)\<rparr>)"
proof -
  have "bf b = bufs s b" if "b \<in> set (owned_bufs (reqs s) n)" for b
    by (rule bf) (rule wf_bufs_alloc [OF wf n that])
  then have ok: "ser_ok (reqs s) bf n"
    by (rule ser_ok_frame [OF wf_serD [OF wf n] refl])
  have "set (request_buf r) \<inter> set (owned_bufs (reqs s) n) = {}"
    using newbuf wf_bufs_alloc [OF wf n] by blast
  note q = ser_ok_queued [OF ok fresh ops I r this]
  show ?thesis
  proof (rule wf_update [OF wf n])
    show "ser_ok (reqs (s\<lparr>bufs := bf, sers := (sers s)(sn \<mapsto> queued env d a n), reqs := (reqs s)(a \<mapsto> r)\<rparr>))
      (bufs (s\<lparr>bufs := bf, sers := (sers s)(sn \<mapsto> queued env d a n), reqs := (reqs s)(a \<mapsto> r)\<rparr>))
      (queued env d a n)" using q(1) by simp
  qed (use q bf newbuf fresh in \<open>auto simp: same_globals_def\<close>)
qed

text \<open>
  Queueing from a state that has at most new buffers, the payload's among them: it never
  faults and leaves a well-formed state; a request it returns is allocated.
\<close>

lemma enqueue_request_ok:
  assumes wf: "well_formed s" and env: "env_ok env s" and n: "sers s sn = Some n"
    and bf: "\<And>b. bufs s b \<noteq> None \<Longrightarrow> bf b = bufs s b"
    and payload: "\<not> shm \<Longrightarrow> bufs s b = None \<and> buf_len bf b len"
  shows "ends_in (enqueue_request_for_service env sn b len shm key d (s\<lparr>bufs := bf\<rparr>)) {}
    (\<lambda>(r, s'). well_formed s' \<and> (\<forall>a. r = Some a \<longrightarrow> reqs s' a \<noteq> None))"
proof (cases "kmalloc_request env")
  case None
  have "well_formed (s\<lparr>bufs := bf\<rparr>)"
    by (rule wf_frame [OF wf]) (use bf in \<open>auto simp: same_globals_def\<close>)
  with None show ?thesis by (simp add: enqueue_request_no_memory)
next
  case (Some ag)
  then obtain a g where ag: "kmalloc_request env = Some (a, g)" by (cases ag) simp
  with env have fresh: "reqs s a = None" and ops: "rb_ok (rb_reqs env)"
    by (simp_all add: env_ok_def)
  obtain ok t where I: "Insert_ReqNode_Sorted_by_Deadline (rb_reqs env) (kmalloc_container env) d a
      (Requests_rbtree n) = (ok, t)" by fastforce
  let ?r = "new_request env n b len shm key d g"
  note unl = ser_ok_unlocked [OF wf_serD [OF wf n]]
  have n': "sers (s\<lparr>bufs := bf\<rparr>) sn = Some n" using n by simp
  note eq = enqueue_request_eq [OF n' unl ag I, of b len shm key, unfolded Let_def]
  show ?thesis
  proof (cases ok)
    case True
    with I have I': "Insert_ReqNode_Sorted_by_Deadline (rb_reqs env) (kmalloc_container env) d a
      (Requests_rbtree n) = (True, t)" by simp
    have "request_ok bf ?r"
      using payload by (cases shm) (simp_all add: request_ok_def)
    moreover have "bufs s x = None" if "x \<in> set (request_buf ?r)" for x
      using that payload by (cases shm) (simp_all add: request_buf_def)
    ultimately have "well_formed (s\<lparr>bufs := bf, sers := (sers s)(sn \<mapsto> queued env d a n), reqs := (reqs s)(a \<mapsto> ?r)\<rparr>)"
      by (intro wf_queued [OF wf n fresh ops I'] bf) simp_all
    then show ?thesis unfolding eq using True by simp
  next
    case False
    have "well_formed (s\<lparr>sers := (sers s)(sn \<mapsto> n\<lparr>next_req_token := next_req_token n + 1\<rparr>)\<rparr>)"
      by (rule wf_update_ser [OF wf n]) (use wf_serD [OF wf n] in simp_all)
    then have "well_formed (s\<lparr>bufs := bf, sers := (sers s)(sn \<mapsto> n\<lparr>next_req_token := next_req_token n + 1\<rparr>),
        reqs := (reqs s)(a \<mapsto> abort ?r)\<rparr>)"
      by (rule wf_frame) (use bf fresh in \<open>auto simp: same_globals_def\<close>)
    then show ?thesis unfolding eq using False by simp
  qed
qed

end
