(* ===== verification/Worker_Props.thy ===== *)
theory Worker_Props
  imports Request_Props
begin

text \<open>
  The worker operations on a well-formed state: a request moves from the waiting tree to a
  worker's slot and from there to the completed list, and is never in two places.
\<close>

section \<open>Moving requests around inside a service\<close>

lemma mset_bufs_at:
  "mset (bufs_at f rq as) = (\<Sum>a \<in># mset as. mset (case rq a of None \<Rightarrow> [] | Some r \<Rightarrow> f r))"
  by (induction as) simp_all

lemma bufs_at_subseteq:
  assumes "mset as \<subseteq># mset bs"
  shows "mset (bufs_at f rq as) \<subseteq># mset (bufs_at f rq bs)"
proof -
  obtain cs where "mset bs = mset as + mset cs"
    using assms by (metis ex_mset mset_subset_eq_exists_conv)
  then have "mset bs = mset (as @ cs)" by simp
  then show ?thesis by (simp add: mset_bufs_at)
qed

lemma distinct_subseteq_mset: "distinct bs \<Longrightarrow> mset as \<subseteq># mset bs \<Longrightarrow> distinct as"
  by (metis distinct_append ex_mset mset_append mset_eq_imp_distinct_iff mset_subset_eq_exists_conv)

text \<open>
  The rule for such moves: the service owns no more than before, and the completed list
  has gained at most the requests new, whose responses are in buffers of their own.
\<close>

lemma ser_ok_move:
  assumes ok: "ser_ok rq bf n"
    and own: "mset (owned n') \<subseteq># mset (owned n)"
    and comp: "mset (Completed_RequestsHead n') \<subseteq># mset (Completed_RequestsHead n @ new)"
    and new: "\<And>a. a \<in> set new \<Longrightarrow> \<exists>r. rq a = Some r \<and> response_ok bf r"
    and newb: "distinct (bufs_at response_buf rq new)"
      "set (bufs_at response_buf rq new) \<inter> set (owned_bufs rq n) = {}"
    and wait: "set (waiting (Requests_rbtree n')) \<subseteq> set (waiting (Requests_rbtree n))"
    and rest: "no_empty_queue (Requests_rbtree n')" "\<not> service_mutex n'" "slots_ok n'"
      "\<not> destroy_me n' \<Longrightarrow> Request_count n' = of_nat (length (waiting (Requests_rbtree n')))"
  shows "ser_ok rq bf n'"
    and "set (owned_bufs rq n') \<subseteq> set (owned_bufs rq n) \<union> set (bufs_at response_buf rq new)"
proof -
  have "mset (owned_bufs rq n') \<subseteq># mset (owned_bufs rq n @ bufs_at response_buf rq new)"
    using bufs_at_subseteq [OF own, of request_buf rq] bufs_at_subseteq [OF comp, of response_buf rq]
    by (simp add: owned_bufs_def add.assoc subset_mset.add_mono)
  then have bufs: "set (owned_bufs rq n') \<subseteq> set (owned_bufs rq n @ bufs_at response_buf rq new)"
    and sub: "mset (owned_bufs rq n') \<subseteq># mset (owned_bufs rq n @ bufs_at response_buf rq new)"
    by (metis set_mset_mono set_mset_mset)+
  have "distinct (owned_bufs rq n @ bufs_at response_buf rq new)"
    using ser_okD(4) [OF ok] newb by auto
  then have "distinct (owned_bufs rq n')"
    using sub by (rule distinct_subseteq_mset)
  moreover have "distinct (owned n')"
    by (rule distinct_subseteq_mset [OF ser_okD(3) [OF ok] own])
  moreover have "set (owned n') \<subseteq> set (owned n)"
    using own by (metis set_mset_mono set_mset_mset)
  moreover have "set (Completed_RequestsHead n') \<subseteq> set (Completed_RequestsHead n) \<union> set new"
    using comp by (metis set_append set_mset_mono set_mset_mset)
  ultimately show "ser_ok rq bf n'"
    using rest wait new ser_ok_owned [OF ok] ser_ok_completed [OF ok] ser_ok_waiting [OF ok]
    by (intro ser_okI) blast+
  show "set (owned_bufs rq n') \<subseteq> set (owned_bufs rq n) \<union> set (bufs_at response_buf rq new)"
    using bufs by simp
qed

text \<open>The slots of a service after slot i was set.\<close>

definition with_serving :: "nat \<Rightarrow> addr option \<Rightarrow> ServiceNode \<Rightarrow> ServiceNode" where
  "with_serving i x n = n\<lparr>worker_slots :=
     (worker_slots n)[i := (worker_slots n ! i)\<lparr>serving := x\<rparr>]\<rparr>"

lemma with_serving_simps [simp]:
  "service_mutex (with_serving i x n) = service_mutex n"
  "Requests_rbtree (with_serving i x n) = Requests_rbtree n"
  "Completed_RequestsHead (with_serving i x n) = Completed_RequestsHead n"
  "uri (with_serving i x n) = uri n" "Max_Workers (with_serving i x n) = Max_Workers n"
  "destroy_me (with_serving i x n) = destroy_me n" "next_id (with_serving i x n) = next_id n"
  "Request_count (with_serving i x n) = Request_count n"
  "length (worker_slots (with_serving i x n)) = length (worker_slots n)"
  by (simp_all add: with_serving_def)

lemma serving_list_update:
  assumes "i < length ws"
  shows "mset (serving_list (ws[i := (ws ! i)\<lparr>serving := x\<rparr>])) + mset_set (set_option (serving (ws ! i))) =
    mset (serving_list ws) + mset_set (set_option x)"
proof -
  have "ws = take i ws @ ws ! i # drop (Suc i) ws" using assms by (rule id_take_nth_drop)
  then have "serving_list ws = serving_list (take i ws @ ws ! i # drop (Suc i) ws)" by simp
  then show ?thesis
    using assms by (simp add: upd_conv_take_nth_drop split: option.split)
qed

lemma slots_ok_with_serving:
  assumes "slots_ok n" and "i < unat (next_id n)"
  shows "slots_ok (with_serving i x n)"
proof -
  have "unat (next_id n) \<le> length (worker_slots n)"
    using assms(1) by (simp add: slots_ok_def word_le_nat_alt)
  with assms(2) have "i < length (worker_slots n)" by simp
  then have "task (worker_slots (with_serving i x n) ! j) = task (worker_slots n ! j)"
    and "serving (worker_slots (with_serving i x n) ! j) =
      (if j = i then x else serving (worker_slots n ! j))" for j
    by (simp_all add: with_serving_def nth_list_update)
  with assms show ?thesis unfolding slots_ok_def by simp
qed

lemma set_serving_eq:
  "sers s sn = Some n \<Longrightarrow>
    set_serving sn i x s = Inr (s\<lparr>sers := (sers s)(sn \<mapsto> with_serving i x n)\<rparr>)"
  by (simp add: steps with_serving_def)


section \<open>Workers of a service\<close>

lemma get_worker_by_id_ok:
  assumes "slots_ok n"
  shows "ends_in (get_worker_by_id env n w) {Null_deref}
    (\<lambda>r. \<forall>i. r = Some i \<longrightarrow> i = unat w \<and> w < next_id n \<and>
       task (worker_slots n ! i) = Some (current env))"
  using assms
  by (auto simp: get_worker_by_id_def slots_ok_def word_less_nat_alt not_le split: option.splits)

lemma get_worker_by_id_eq:
  assumes "slots_ok n" and "w < next_id n"
  shows "get_worker_by_id env n w =
    Inr (if task (worker_slots n ! unat w) = Some (current env) then Some (unat w) else None)"
proof -
  from assms have "w < Max_Workers n" "unat w < length (worker_slots n)"
    by (auto simp: slots_ok_def word_less_nat_alt word_le_nat_alt)
  moreover with assms obtain p where "task (worker_slots n ! unat w) = Some p"
    by (auto simp: slots_ok_def word_less_nat_alt)
  ultimately show ?thesis
    by (simp add: get_worker_by_id_def)
qed

lemma decrease_workers_eq:
  assumes "sers s sn = Some n" and "\<not> service_mutex n"
  shows "decrease_workers sn s =
    Inr (s\<lparr>sers := (sers s)(sn \<mapsto> n\<lparr>count_registered := count_registered n - 1\<rparr>)\<rparr>)"
  using assms by (simp add: decrease_workers_def steps unlocking)

lemma decrease_workers_wf:
  "well_formed s \<Longrightarrow> sers s sn = Some n \<Longrightarrow>
    well_formed (s\<lparr>sers := (sers s)(sn \<mapsto> n\<lparr>count_registered := count_registered n - 1\<rparr>)\<rparr>)"
  by (rule wf_update_ser) (auto intro: wf_serD)

lemma slot_in_range:
  assumes "slots_ok n" and "w < next_id n"
  shows "unat w < length (worker_slots n)" and "unat w < unat (next_id n)"
  using assms by (auto simp: slots_ok_def word_less_nat_alt word_le_nat_alt)

lemma serving_owned:
  assumes "i < length (worker_slots n)" and "serving (worker_slots n ! i) = Some a"
  shows "a \<in> set (owned n)" and "a \<in> set (serving_list (worker_slots n))"
  using assms by (auto simp: owned_def in_serving_list intro: nth_mem)

lemma serving_not_completed:
  assumes "ser_ok rq bf n" and "i < length (worker_slots n)"
    and "serving (worker_slots n ! i) = Some a"
  shows "a \<notin> set (Completed_RequestsHead n)"
  using ser_okD(3) [OF assms(1)] serving_owned(2) [OF assms(2,3)] by (auto simp: owned_def)

text \<open>A request that one service has in a slot is in no completed list at all.\<close>

lemma serving_nowhere_completed:
  assumes "well_formed s" and "sers s sn = Some n" and "i < length (worker_slots n)"
    and "serving (worker_slots n ! i) = Some a" and "sers s sm = Some m"
  shows "a \<notin> set (Completed_RequestsHead m)"
proof (cases "sm = sn")
  case True
  with assms serving_not_completed [OF wf_serD [OF assms(1,2)] assms(3,4)] show ?thesis by simp
next
  case False
  with assms have "set (owned n) \<inter> set (owned m) = {}" by (auto simp: well_formed_def separate_def)
  with serving_owned(1) [OF assms(3,4)] show ?thesis by (auto simp: owned_def)
qed

lemma wf_touch_serving:
  assumes "well_formed s" and "sers s sn = Some n" and "i < length (worker_slots n)"
    and "serving (worker_slots n ! i) = Some a" and "reqs s a = Some r" and "same_payload r r'"
  shows "well_formed (s\<lparr>reqs := (reqs s)(a \<mapsto> r')\<rparr>)"
  by (rule wf_touch [OF assms(1,5,6)]) (use serving_nowhere_completed [OF assms(1-4)] in blast)

lemma slot_length: "slots_ok n \<Longrightarrow> i < unat (next_id n) \<Longrightarrow> i < length (worker_slots n)"
  by (auto simp: slots_ok_def word_le_nat_alt)

lemma owned_clear_slot:
  assumes "i < length (worker_slots n)"
  shows "mset (owned (with_serving i None n)) \<subseteq># mset (owned n)"
proof -
  from serving_list_update [OF assms, of None]
  have "mset (serving_list (worker_slots (with_serving i None n))) \<subseteq>#
      mset (serving_list (worker_slots n))"
    by (simp add: with_serving_def) (metis mset_subset_eq_add_left)
  then show ?thesis by (simp add: owned_def subset_mset.add_mono)
qed

lemma clear_slot_wf:
  assumes wf: "well_formed s" and n: "sers s sn = Some n" and i: "i < unat (next_id n)"
  shows "well_formed (s\<lparr>sers := (sers s)(sn \<mapsto> with_serving i None n)\<rparr>)"
proof -
  note ok = wf_serD [OF wf n]
  note own = owned_clear_slot [OF slot_length [OF ser_okD(5) [OF ok] i]]
  have "ser_ok (reqs s) (bufs s) (with_serving i None n)"
    by (rule ser_ok_move(1) [OF ok own, where new = "[]"])
      (use ser_okD [OF ok] slots_ok_with_serving [OF _ i] in simp_all)
  moreover have "set (owned (with_serving i None n)) \<subseteq> set (owned n)"
    using own by (metis set_mset_mono set_mset_mset)
  ultimately show ?thesis
    by (intro wf_update_ser [OF wf n]) simp_all
qed

lemma worker_wait_for_request_ok:
  assumes wf: "well_formed s" and n: "sers s sn = Some n"
  shows "ends_in (worker_wait_for_request env sn w s) {Null_deref} (\<lambda>(r, s'). well_formed s')"
  using get_worker_by_id_ok [OF ser_okD(5) [OF wf_serD [OF wf n]], of env w]
proof (cases rule: ends_in_cases)
  case (2 r)
  show ?thesis
  proof (cases r)
    case None
    with 2 n wf show ?thesis by (simp add: worker_wait_for_request_def load_ser_def)
  next
    case (Some i)
    with 2 have i: "i = unat w" "w < next_id n" by simp_all
    note rng = slot_in_range [OF ser_okD(5) [OF wf_serD [OF wf n]] i(2), folded i(1)]
    show ?thesis
    proof (cases "serving (worker_slots n ! i)")
      case None
      with 2 n wf Some show ?thesis by (simp add: worker_wait_for_request_def load_ser_def)
    next
      case (Some a)
      from ser_ok_owned [OF wf_serD [OF wf n] serving_owned(1) [OF rng(1) Some]]
      obtain q where q: "reqs s a = Some q" by blast
      let ?s = "s\<lparr>reqs := (reqs s)(a \<mapsto> q\<lparr>Request_sem := Suc (Request_sem q)\<rparr>)\<rparr>"
      have "well_formed ?s"
        by (rule wf_touch_serving [OF wf n rng(1) Some q]) (simp add: same_payload_def)
      from clear_slot_wf [OF this _ rng(2)] n
      have "well_formed (?s\<lparr>sers := (sers ?s)(sn \<mapsto> with_serving i None n)\<rparr>)" by simp
      with 2 n Some \<open>r = Some i\<close> q show ?thesis
        by (simp add: worker_wait_for_request_def load_ser_def up_request_def modify_req_def
            load_req_def set_serving_eq)
    qed
  qed
qed (use n in \<open>simp add: worker_wait_for_request_def load_ser_def\<close>)


section \<open>Taking a request\<close>

definition taken :: "nat \<Rightarrow> addr \<Rightarrow> req_root \<Rightarrow> ServiceNode \<Rightarrow> ServiceNode" where
  "taken i a t n =
     with_serving i (Some a) (n\<lparr>Requests_rbtree := t, Request_count := Request_count n - 1\<rparr>)"

lemma Service_check_alive_eq:
  assumes "sers s sn = Some n" and "\<not> service_mutex n" and "sn \<in> set (Services s)"
  shows "Service_check_alive env sn s =
    (if \<not> destroy_me n then Inr (True, s)
     else if count_registered n = 1 then Inr (False, unlinked env sn n s)
     else Inr (False, s\<lparr>sers := (sers s)(sn \<mapsto> n\<lparr>count_registered := count_registered n - 1\<rparr>)\<rparr>))"
  using assms
  by (simp add: Service_check_alive_def steps unlocking fun_upd_idem clean_service_def
      unlinked_def Let_def)

lemma worker_woken_alive:
  assumes "rb_ok (rb_reqs env)" and "sers s sn = Some n" and "ser_ok (reqs s) (bufs s) n"
    and "sn \<in> set (Services s)" and "\<not> destroy_me n"
  shows "waiting (Requests_rbtree n) = [] \<Longrightarrow> worker_woken env sn i s = Inr (None, s)"
    and "waiting (Requests_rbtree n) = (d, a) # rest \<Longrightarrow>
      \<exists>t. worker_woken env sn i s = Inr (Some a, s\<lparr>sers := (sers s)(sn \<mapsto> taken i a t n)\<rparr>) \<and>
          waiting t = rest \<and> no_empty_queue t"
proof -
  let ?n = "n\<lparr>service_mutex := True\<rparr>"
  let ?s = "s\<lparr>sers := (sers s)(sn \<mapsto> ?n)\<rparr>"
  note m = ser_okD(1) [OF assms(3)] and q = ser_okD(2) [OF assms(3)]
  have alive: "Service_check_alive env sn s = Inr (True, s)"
    using Service_check_alive_eq [OF assms(2) m assms(4)] assms(5) by simp
  have n': "sers ?s sn = Some ?n" "no_empty_queue (Requests_rbtree ?n)" using q by simp_all
  show "worker_woken env sn i s = Inr (None, s)" if "waiting (Requests_rbtree n) = []"
    using get_request_eq(1) [OF assms(1) n'] that alive m assms(2)
    by (simp add: worker_woken_def mutex_lock_ser_def mutex_unlock_ser_def modify_ser_def
        load_ser_def unlocking fun_upd_idem)
  show "\<exists>t. worker_woken env sn i s = Inr (Some a, s\<lparr>sers := (sers s)(sn \<mapsto> taken i a t n)\<rparr>) \<and>
      waiting t = rest \<and> no_empty_queue t" if w: "waiting (Requests_rbtree n) = (d, a) # rest"
  proof -
    from get_request_eq(2) [OF assms(1) n', of d a rest] w obtain t where
      "get_request env sn ?s = Inr (Some a, ?s\<lparr>sers := (sers ?s)(sn \<mapsto>
         ?n\<lparr>Requests_rbtree := t, Request_count := Request_count ?n - 1\<rparr>)\<rparr>)"
      "waiting t = rest" "no_empty_queue t" by auto
    with alive m assms(2) show ?thesis
      by (intro exI [of _ t])
        (simp add: worker_woken_def mutex_lock_ser_def mutex_unlock_ser_def modify_ser_def
          load_ser_def set_serving_def taken_def with_serving_def unlocking)
  qed
qed

lemma owned_taken:
  assumes "i < length (worker_slots n)" and "waiting (Requests_rbtree n) = (d, a) # rest" and "waiting t = rest"
  shows "mset (owned (taken i a t n)) \<subseteq># mset (owned n)"
proof -
  from serving_list_update [OF assms(1), of "Some a"]
  have sl: "mset (serving_list (worker_slots (taken i a t n))) \<subseteq>#
      add_mset a (mset (serving_list (worker_slots n)))"
    by (simp add: taken_def with_serving_def) (metis mset_subset_eq_add_left)
  then show ?thesis
    using subset_mset.add_mono [OF sl subset_mset.order_refl, of "mset (map snd rest @ Completed_RequestsHead n)"]
    by (simp add: owned_def taken_def assms(2,3) ac_simps)
qed

lemma taken_wf:
  assumes wf: "well_formed s" and n: "sers s sn = Some n" and i: "i < unat (next_id n)"
    and w: "waiting (Requests_rbtree n) = (d, a) # rest" and t: "waiting t = rest" "no_empty_queue t"
  shows "well_formed (s\<lparr>sers := (sers s)(sn \<mapsto> taken i a t n)\<rparr>)"
proof -
  note ok = wf_serD [OF wf n]
  note own = owned_taken [OF slot_length [OF ser_okD(5) [OF ok] i] w t(1)]
  have "slots_ok n \<Longrightarrow> slots_ok (taken i a t n)"
    unfolding taken_def by (rule slots_ok_with_serving) (use i in \<open>simp_all add: slots_ok_def\<close>)
  then have "ser_ok (reqs s) (bufs s) (taken i a t n)"
    by (intro ser_ok_move(1) [OF ok own, where new = "[]"])
      (use ser_okD [OF ok] w t in \<open>auto simp: taken_def\<close>)
  moreover have "set (owned (taken i a t n)) \<subseteq> set (owned n)"
    using own by (metis set_mset_mono set_mset_mset)
  ultimately show ?thesis
    by (intro wf_update_ser [OF wf n]) (simp_all add: taken_def)
qed

lemma unlinked_wf_plain:
  assumes "well_formed s" and "rb_ok (rb_sers env)" and "sers s sn = Some n"
  shows "well_formed (unlinked env sn n s)"
  by (rule wf_remove [OF assms(1,3,2)]) (simp_all add: unlinked_def)

text \<open>
  A woken worker of slot i: no fault, and a request it gets is the first one waiting, now
  in the worker's slot.
\<close>

lemma worker_woken_ok:
  assumes wf: "well_formed s" and env: "rb_ok (rb_reqs env)" "rb_ok (rb_sers env)"
    and n: "sers s sn = Some n" and i: "i < unat (next_id n)"
  shows "ends_in (worker_woken env sn i s) {}
    (\<lambda>(r, s'). well_formed s' \<and> (\<forall>a. r = Some a \<longrightarrow>
       (\<exists>t. s' = s\<lparr>sers := (sers s)(sn \<mapsto> taken i a t n)\<rparr>) \<and> a = snd (hd (waiting (Requests_rbtree n)))
       \<and> reqs s a \<noteq> None))"
proof (cases "destroy_me n")
  case True
  note alive = Service_check_alive_eq [OF n ser_okD(1) [OF wf_serD [OF wf n]] wf_Services [OF wf n]]
  from True decrease_workers_wf [OF wf n] unlinked_wf_plain [OF wf env(2) n] show ?thesis
    by (simp add: worker_woken_def alive)
next
  case False
  note woken = worker_woken_alive [OF env(1) n wf_serD [OF wf n] wf_Services [OF wf n] False]
  show ?thesis
  proof (cases "waiting (Requests_rbtree n)")
    case Nil
    with woken(1) wf show ?thesis by simp
  next
    case (Cons x rest)
    then obtain d a where w: "waiting (Requests_rbtree n) = (d, a) # rest" by (cases x) simp
    from woken(2) [OF w] obtain t where
      t: "worker_woken env sn i s = Inr (Some a, s\<lparr>sers := (sers s)(sn \<mapsto> taken i a t n)\<rparr>)"
      "waiting t = rest" "no_empty_queue t" by blast
    from w have "a \<in> set (owned n)" by (simp add: owned_def)
    with wf_owned_alloc [OF wf n] t w taken_wf [OF wf n i w t(2,3)] show ?thesis by auto
  qed
qed


section \<open>Handing a finished request over\<close>

definition moved :: "nat \<Rightarrow> addr \<Rightarrow> ServiceNode \<Rightarrow> ServiceNode" where
  "moved i a n = (with_serving i None n)\<lparr>Completed_RequestsHead := Completed_RequestsHead n @ [a]\<rparr>"

lemma owned_moved:
  assumes "i < length (worker_slots n)" and "serving (worker_slots n ! i) = Some a"
  shows "mset (owned (moved i a n)) = mset (owned n)"
proof -
  from serving_list_update [OF assms(1), of None] assms(2)
  have sl: "add_mset a (mset (serving_list (worker_slots (with_serving i None n)))) =
      mset (serving_list (worker_slots n))"
    by (simp add: with_serving_def)
  then show ?thesis by (simp add: owned_def moved_def flip: sl)
qed

lemma get_worker_by_id_locked [simp]:
  "get_worker_by_id env (n\<lparr>service_mutex := b\<rparr>) w = get_worker_by_id env n w"
  by (simp add: get_worker_by_id_def)

lemma move_from_worker_to_completed_eq:
  assumes "sers s sn = Some n" and "\<not> service_mutex n"
    and "get_worker_by_id env n w = Inr (Some i)"
    and "serving (worker_slots n ! i) = Some a" and "reqs s a = Some r"
  shows "move_from_worker_to_completed env sn w s = Inr (s\<lparr>sers := (sers s)(sn \<mapsto> moved i a n),
    reqs := (reqs s)(a \<mapsto> r\<lparr>Request_sem := Suc (Request_sem r)\<rparr>)\<rparr>)"
  using assms
  by (simp add: move_from_worker_to_completed_def steps unlocking moved_def with_serving_def Let_def)

text \<open>
  The state after End_Job: the request is rewritten, its response in a buffer that was not
  in use before, and moved to the completed list.
\<close>

lemma finished_wf:
  assumes wf: "well_formed s" and n: "sers s sn = Some n" and i: "i < unat (next_id n)"
    and serv: "serving (worker_slots n ! i) = Some a" and r: "reqs s a = Some r"
    and r': "same_payload r r'" "response_ok bf r'"
    and newbuf: "\<And>b. b \<in> set (response_buf r') \<Longrightarrow> bufs s b = None"
    and bf: "\<And>b. bufs s b \<noteq> None \<Longrightarrow> bf b = bufs s b"
    and s': "same_globals s s'" "sers s' = (sers s)(sn \<mapsto> moved i a n)"
      "reqs s' = (reqs s)(a \<mapsto> r')" "bufs s' = bf"
  shows "well_formed s'"
proof -
  note ok0 = wf_serD [OF wf n]
  have len: "i < length (worker_slots n)"
    using i ser_okD(5) [OF ok0] by (auto simp: slots_ok_def word_le_nat_alt)
  have "bf b = bufs s b" if "b \<in> set (owned_bufs (reqs s) n)" for b
    by (rule bf) (rule wf_bufs_alloc [OF wf n that])
  then have ok1: "ser_ok (reqs s) bf n" by (rule ser_ok_frame [OF ok0 refl])
  have notc: "a \<notin> set (Completed_RequestsHead n)" by (rule serving_not_completed [OF ok0 len serv])
  note ok2 = ser_ok_touch [OF ok1 r r'(1)]
  have bufs: "owned_bufs ((reqs s)(a \<mapsto> r')) n = owned_bufs (reqs s) n" using ok2(1) notc by blast
  have ok: "ser_ok ((reqs s)(a \<mapsto> r')) bf n" using ok2(2) notc by blast
  note own = owned_moved [OF len serv]
  let ?rq = "(reqs s)(a \<mapsto> r')"
  have own': "mset (owned (moved i a n)) \<subseteq># mset (owned n)" by (simp add: own)
  have comp: "mset (Completed_RequestsHead (moved i a n)) \<subseteq># mset (Completed_RequestsHead n @ [a])"
    by (simp add: moved_def)
  have new: "\<exists>q. ?rq x = Some q \<and> response_ok bf q" if "x \<in> set [a]" for x
    using that r'(2) by simp
  have dis: "distinct (bufs_at response_buf ?rq [a])" by (simp add: response_buf_def)
  have disj: "set (bufs_at response_buf ?rq [a]) \<inter> set (owned_bufs ?rq n) = {}"
  proof -
    have "bufs_at response_buf ?rq [a] = response_buf r'" by simp
    with newbuf wf_bufs_alloc [OF wf n] show ?thesis unfolding bufs by (metis disjoint_iff)
  qed
  have "slots_ok (moved i a n)"
    using slots_ok_with_serving [OF ser_okD(5) [OF ok] i] by (simp add: moved_def slots_ok_def)
  note rest = this ser_okD [OF ok]
  have mv: "ser_ok ?rq bf (moved i a n)"
    by (rule ser_ok_move(1) [OF ok own' comp new dis disj]) (use rest in \<open>simp_all add: moved_def\<close>)
  have mv': "set (owned_bufs ?rq (moved i a n)) \<subseteq> set (owned_bufs ?rq n) \<union> set (bufs_at response_buf ?rq [a])"
    by (rule ser_ok_move(2) [OF ok own' comp new dis disj]) (use rest in \<open>simp_all add: moved_def\<close>)
  show ?thesis
  proof (rule wf_update [OF wf n, where n' = "moved i a n"])
    show "x \<in> set (owned n) \<or> reqs s x = None" if "x \<in> set (owned (moved i a n))" for x
      using that own by (metis mset_eq_setD)
    show "reqs s' x = reqs s x" if "x \<notin> set (owned n)" for x
      using that serving_owned(1) [OF len serv] s'(3) by auto
    show "b \<in> set (owned_bufs (reqs s) n) \<or> bufs s b = None"
      if "b \<in> set (owned_bufs (reqs s') (moved i a n))" for b
    proof -
      have "bufs_at response_buf ?rq [a] = response_buf r'" by simp
      with subsetD [OF mv' that [unfolded s'(3)]]
      have "b \<in> set (owned_bufs (reqs s) n) \<or> b \<in> set (response_buf r')"
        by (simp only: bufs Un_iff)
      with newbuf show ?thesis by metis
    qed
  qed (use mv bf s' in \<open>simp_all add: moved_def\<close>)
qed

end
