(* ===== verification/Handler_Props.thy ===== *)
theory Handler_Props
  imports Worker_Props
begin

text \<open>
  The contract of every handler: from a well-formed state, and with memory the allocator
  may hand out, it ends in a well-formed state or in one of the faults named.
\<close>

abbreviation lookup :: "kstate \<Rightarrow> bytes \<Rightarrow> addr option" where
  "lookup s u \<equiv> directory (Services_rbtree s) (cstr u)"

section \<open>Access to user memory\<close>

lemma put_user_wf: "put_user v p s = Some s' \<Longrightarrow> well_formed s' = well_formed s"
  by (auto simp: put_user_def split: if_splits)

lemma put_user_reqs: "put_user v p s = Some s' \<Longrightarrow> reqs s' = reqs s"
  by (auto simp: put_user_def split: if_splits)

lemma copy_to_user_wf: "copy_to_user p src s = Some s' \<Longrightarrow> well_formed s' = well_formed s"
  by (auto simp: copy_to_user_def split: option.splits uval.splits if_splits)

lemma dispatch_wf [simp]: "well_formed (Dispatch_as_BestEffort env s) = well_formed s"
  by (simp add: Dispatch_as_BestEffort_def apply_sched_def Let_def)

lemma dispatch_policy_wf [simp]: "well_formed (dispatch_policy env n d s) = well_formed s"
  by (auto simp: dispatch_policy_def Dispatch_as_RealTime_def Dispatch_as_BestEffort_def
      apply_sched_def Let_def)

text \<open>A contract on the states, whatever the value.\<close>

abbreviation keeps_wf :: "outcome \<Rightarrow> fault set \<Rightarrow> bool" where
  "keeps_wf m F \<equiv> ends_in m F (\<lambda>(p, s'). well_formed s')"

lemma with_service:
  assumes "well_formed s"
    and "lookup s u = None \<Longrightarrow> ends_in (A s) F Q"
    and "\<And>sn n. lookup s u = Some sn \<Longrightarrow> sers s sn = Some n \<Longrightarrow> ends_in (B sn n s) F Q"
  shows "ends_in (bnd (findService u s) (\<lambda>(ser_node, s).
    case ser_node of None \<Rightarrow> A s | Some sn \<Rightarrow> bnd (load_ser sn s) (\<lambda>ser. B sn ser s))) F Q"
proof (cases "lookup s u")
  case None
  with assms show ?thesis by (simp add: findService_wf)
next
  case (Some sn)
  obtain n where "sers s sn = Some n" using directory_service [OF assms(1) Some] by metis
  with assms Some show ?thesis by (simp add: findService_wf load_ser_def)
qed


section \<open>Services and clients\<close>

lemma linber_register_service_ok:
  assumes "well_formed s" and "env_ok env s"
  shows "keeps_wf (linber_register_service env u reg s) {List_corruption}"
proof (cases "lookup s u")
  case None
  then show ?thesis
    using create_service_eq [OF assms None, of reg] created_wf [OF assms None, of _ _ reg] assms(1)
    by (auto simp: linber_register_service_def linber_register_service_found_def findService_wf created_def load_ser_def put_user_wf
        split: option.splits)
next
  case (Some sn)
  with assms(1) show ?thesis by (simp add: linber_register_service_def linber_register_service_found_def findService_wf)
qed

lemma request_completed_ok:
  assumes "well_formed s" and "reqs s a \<noteq> None"
  shows "keeps_wf (request_completed rp a s) {}"
  using assms
  by (auto simp: request_completed_def load_req_def Let_def put_user_wf split: option.splits)

lemma request_queued_ok:
  assumes "well_formed s" and "reqs s a \<noteq> None"
  shows "keeps_wf (request_queued rp b a s) {}"
proof -
  have "keeps_wf (request_completed rp a s') {}" if "put_user v p s = Some s'" for v p s'
    using that assms by (intro request_completed_ok) (simp_all add: put_user_wf put_user_reqs)
  with assms show ?thesis
    by (auto simp: request_queued_def load_req_def put_user_wf split: option.splits)
qed

lemma enqueue_and_wait_ok:
  assumes "well_formed s" and "env_ok env s" and "sers s sn = Some n"
    and "\<And>b. bufs s b \<noteq> None \<Longrightarrow> bf b = bufs s b"
    and "rp_request_shm_mode rp \<noteq> 1 \<Longrightarrow> bufs s b = None \<and> buf_len bf b (rp_request_len rp)"
  shows "keeps_wf (enqueue_and_wait env sn rp b key (s\<lparr>bufs := bf\<rparr>)) {}"
proof -
  have "ends_in (enqueue_request_for_service env sn b (rp_request_len rp) (rp_request_shm_mode rp = 1)
      key (rp_abs_deadline_ns rp) (s\<lparr>bufs := bf\<rparr>)) {}
      (\<lambda>(r, s'). well_formed s' \<and> (\<forall>a. r = Some a \<longrightarrow> reqs s' a \<noteq> None))"
    by (rule enqueue_request_ok [OF assms(1-4)]) (use assms(5) in simp_all)
  then show ?thesis
    unfolding enqueue_and_wait_def ends_in_simps
    by (rule ends_in_weaken) (auto simp: request_queued_ok split: option.splits)
qed

text \<open>The search of a waiting, served or completed request changes nothing.\<close>

lemma find_serving_ok:
  assumes "\<forall>a \<in> set (serving_list ws). tok a \<noteq> None"
  shows "ends_in (find_serving tok wanted ws) {} (\<lambda>r. \<forall>a. r = Some a \<longrightarrow> a \<in> set (serving_list ws))"
  using assms by (induction ws) (auto split: option.splits elim: ends_in_weaken)

lemma search_ok:
  assumes "ends_in A F P" and "ends_in B F P" and "ends_in C F P"
    and "\<And>r. P r \<Longrightarrow> ends_in (k r) F Q"
  shows "ends_in (bnd A (\<lambda>x. bnd (case x of Some a \<Rightarrow> Inr (Some a) | None \<Rightarrow> B)
    (\<lambda>y. bnd (case y of Some a \<Rightarrow> Inr (Some a) | None \<Rightarrow> C) k))) F Q"
  using assms by (cases A; cases B; cases C) (auto split: option.splits)

lemma find_Waiting_or_Completed_ok:
  assumes n: "sers s sn = Some n" and ok: "ser_ok (reqs s) (bufs s) n"
  shows "ends_in (find_Waiting_or_Completed_Request sn d tok s) {Spin}
    (\<lambda>(r, s'). s' = s \<and> (\<forall>a. r = Some a \<longrightarrow> reqs s a \<noteq> None))"
proof -
  let ?n = "n\<lparr>service_mutex := True\<rparr>"
  let ?s = "s\<lparr>sers := (sers s)(sn \<mapsto> ?n)\<rparr>"
  let ?P = "\<lambda>r. \<forall>a. r = Some a \<longrightarrow> reqs s a \<noteq> None"
  have alloc: "\<forall>a \<in> set (owned n). reqs s a \<noteq> None"
    using ser_ok_owned [OF ok] by (metis option.distinct(1))
  have tree: "ends_in (case RBtree_get_request (token_at s) (Requests_rbtree n) d tok of
      None \<Rightarrow> Inl Spin | Some r \<Rightarrow> r) {Spin} ?P"
  proof (cases "rb_descend (\<lambda>c. deadline_diff_int d (unique_id c)) (Requests_rbtree n)")
    case (Rb_found p c)
    then have "c \<in> set (conts (Requests_rbtree n))" by (rule rb_descend_in)
    then have sub: "set (RequestHead c) \<subseteq> set (owned n)" by (force simp: owned_def waiting_def)
    with find_token_owned [OF ok] obtain r where r: "find_token (token_at s) tok (RequestHead c) = Inr r"
      by metis
    show ?thesis
    proof (cases r)
      case (Some a)
      with r have "a \<in> set (RequestHead c)" using find_token_Some by blast
      with sub alloc Some r Rb_found show ?thesis by (auto simp: RBtree_get_request_eq)
    qed (use r Rb_found in \<open>simp add: RBtree_get_request_eq\<close>)
  qed (simp add: RBtree_get_request_eq)
  have slots: "ends_in (find_serving (token_at s) tok (worker_slots n)) {Spin} ?P"
    by (rule ends_in_mono [OF find_serving_ok]) (use alloc in \<open>auto simp: owned_def\<close>)
  have sub: "set (Completed_RequestsHead n) \<subseteq> set (owned n)" by (auto simp: owned_def)
  with find_token_owned [OF ok] obtain r
    where r: "find_token (token_at s) tok (Completed_RequestsHead n) = Inr r" by metis
  have comp: "ends_in (find_token (token_at s) tok (Completed_RequestsHead n)) {Spin} ?P"
    using find_token_Some [of "token_at s" tok "Completed_RequestsHead n"] sub alloc
    unfolding r by auto
  have unlock: "mutex_unlock_ser sn ?s = Inr s"
    using n ser_okD(1) [OF ok] by (simp add: steps unlocking fun_upd_idem)
  have "mutex_lock_ser sn s = Inr ?s" "load_ser sn ?s = Inr ?n"
    using n ser_okD(1) [OF ok] by (simp_all add: steps)
  with unlock have "find_Waiting_or_Completed_Request sn d tok s =
    bnd (case RBtree_get_request (token_at s) (Requests_rbtree n) d tok of
           None \<Rightarrow> Inl Spin | Some r \<Rightarrow> r)
      (\<lambda>x. bnd (case x of Some a \<Rightarrow> Inr (Some a) | None \<Rightarrow> find_serving (token_at s) tok (worker_slots n))
      (\<lambda>y. bnd (case y of Some a \<Rightarrow> Inr (Some a)
              | None \<Rightarrow> find_token (token_at s) tok (Completed_RequestsHead n))
      (\<lambda>r. Inr (r, s))))"
    by (simp add: find_Waiting_or_Completed_Request_def cong: option.case_cong)
  then show ?thesis
    by (simp only:) (rule search_ok [OF tree slots comp], simp)
qed

lemma linber_request_service_ok:
  assumes "well_formed s" and "env_ok env s"
  shows "keeps_wf (linber_request_service env u rp s) {Spin}"
  unfolding linber_request_service_def linber_request_service_found_def
proof (rule with_service [OF assms(1)], goal_cases)
  case (2 sn n)
  note n = 2(2)
  have enq: "keeps_wf (enqueue_and_wait env sn rp 0 (shm_key (rp_request rp)) s) {Spin}"
    if "rp_request_shm_mode rp = 1"
  proof -
    have "keeps_wf (enqueue_and_wait env sn rp 0 (shm_key (rp_request rp)) (s\<lparr>bufs := bufs s\<rparr>)) {}"
      by (rule enqueue_and_wait_ok [OF assms n]) (use that in simp_all)
    then have "keeps_wf (enqueue_and_wait env sn rp 0 (shm_key (rp_request rp)) s) {}" by simp
    then show ?thesis by (rule ends_in_mono) simp_all
  qed
  have enq_buf: "keeps_wf (enqueue_and_wait env sn rp b 0 (s\<lparr>bufs := (bufs s)(b \<mapsto> data)\<rparr>)) {Spin}"
    if b: "kmalloc_buffer env (rp_request_len rp) = Some (b, g)"
      and len: "copy_from_user (rp_request rp) (unat (rp_request_len rp)) s' = Some data"
      for b g data s'
  proof -
    from b assms(2) have fresh: "bufs s b = None" by (simp add: env_ok_def)
    from len have "length data = unat (rp_request_len rp)"
      by (auto simp: copy_from_user_def split: option.splits uval.splits if_splits)
    with fresh have "keeps_wf (enqueue_and_wait env sn rp b 0 (s\<lparr>bufs := (bufs s)(b \<mapsto> data)\<rparr>)) {}"
      by (intro enqueue_and_wait_ok [OF assms n]) (auto simp: buf_len_def)
    then show ?thesis by (rule ends_in_mono) simp_all
  qed
  have new: "well_formed (s\<lparr>bufs := (bufs s)(b \<mapsto> g)\<rparr>)"
    if "kmalloc_buffer env (rp_request_len rp) = Some (b, g)" for b g
    using that assms(2) by (intro wf_new_buf [OF assms(1)]) (simp add: env_ok_def)
  have find: "ends_in (find_Waiting_or_Completed_Request sn d tok s) {Spin} (\<lambda>(r, s'). keeps_wf
      (case r of None \<Rightarrow> Inr (Done LINBER_REQUEST_FAILED, s')
       | Some a \<Rightarrow> bnd (load_req a s') (\<lambda>r. if client r \<noteq> current env
           then Inr (Done LINBER_REQUEST_FAILED, s') else Inr (Wait_response a, s'))) {Spin})" for d tok
    by (rule ends_in_weaken [OF find_Waiting_or_Completed_ok [OF n wf_serD [OF assms(1) n]]])
      (use assms(1) in \<open>auto simp: load_req_def split: option.splits\<close>)
  show ?case
    using assms(1) enq enq_buf new find
    by (auto simp: Let_def case_prod_unfold simp del: fun_upd_apply split: option.split)
qed (use assms in simp)


section \<open>Delivering a response\<close>

definition without :: "addr \<Rightarrow> ServiceNode \<Rightarrow> ServiceNode" where
  "without a n = n\<lparr>Completed_RequestsHead := remove1 a (Completed_RequestsHead n)\<rparr>"

lemma without_simps [simp]:
  "uri (without a n) = uri n" "Max_Workers (without a n) = Max_Workers n"
  "Completed_RequestsHead (without a n) = remove1 a (Completed_RequestsHead n)"
  "Requests_rbtree (without a n) = Requests_rbtree n" "worker_slots (without a n) = worker_slots n"
  "service_mutex (without a n) = service_mutex n" "destroy_me (without a n) = destroy_me n"
  "Request_count (without a n) = Request_count n" "slots_ok (without a n) = slots_ok n"
  by (simp_all add: without_def slots_ok_def)

lemma without_owned:
  assumes "a \<in> set (Completed_RequestsHead n)"
  shows "mset (owned n) = add_mset a (mset (owned (without a n)))"
  using assms by (simp add: owned_def)

text \<open>The buffers of a completed request are its own.\<close>

lemma without_bufs:
  assumes "a \<in> set (Completed_RequestsHead n)" and "rq a = Some r"
  shows "mset (owned_bufs rq n) =
    mset (request_buf r) + mset (response_buf r) + mset (owned_bufs rq (without a n))"
proof -
  have c: "mset (Completed_RequestsHead n) = add_mset a (mset (remove1 a (Completed_RequestsHead n)))"
    using assms(1) by simp
  have "mset (bufs_at response_buf rq (Completed_RequestsHead n)) =
      mset (response_buf r) + mset (bufs_at response_buf rq (remove1 a (Completed_RequestsHead n)))"
    unfolding mset_bufs_at c using assms(2) by simp
  moreover have "mset (bufs_at request_buf rq (owned n)) =
      mset (request_buf r) + mset (bufs_at request_buf rq (owned (without a n)))"
    unfolding mset_bufs_at without_owned [OF assms(1)] using assms(2) by simp
  ultimately show ?thesis by (simp add: owned_bufs_def)
qed

lemma without_ok:
  assumes ok: "ser_ok rq bf n" and a: "a \<in> set (Completed_RequestsHead n)"
  shows "ser_ok rq bf (without a n)"
  by (rule ser_ok_move(1) [OF ok, where new = "[]"])
    (use without_owned [OF a] ser_okD [OF ok] in \<open>simp_all add: mset_subset_eq_add_left\<close>)

lemma without_wf:
  assumes wf: "well_formed s" and n: "sers s sn = Some n" and a: "a \<in> set (Completed_RequestsHead n)"
  shows "well_formed (s\<lparr>sers := (sers s)(sn \<mapsto> without a n)\<rparr>)"
proof (rule wf_update_ser [OF wf n])
  show "set (owned (without a n)) \<subseteq> set (owned n)"
    using without_owned [OF a] by (metis set_mset_add_mset_insert set_mset_mset subset_insertI)
  show "set (Completed_RequestsHead (without a n)) \<subseteq> set (Completed_RequestsHead n)"
    by (simp add: set_remove1_subset)
qed (use without_ok [OF wf_serD [OF wf n] a] in simp_all)

text \<open>Freeing the request with its buffers, once it is out of the list.\<close>

lemma delivered_wf:
  assumes wf: "well_formed s" and n: "sers s sn = Some n" and a: "a \<in> set (Completed_RequestsHead n)"
    and r: "reqs s a = Some r"
    and s': "same_globals s s'" "sers s' = (sers s)(sn \<mapsto> without a n)"
      "reqs s' = (reqs s)(a := None)"
    and bf: "\<And>b. b \<notin> set (request_buf r @ response_buf r) \<Longrightarrow> bufs s' b = bufs s b"
  shows "well_formed s'"
proof -
  note ok = wf_serD [OF wf n]
  have "distinct (request_buf r @ response_buf r @ owned_bufs (reqs s) (without a n))"
    using ser_okD(4) [OF ok] without_bufs [of a n "reqs s", OF a r]
    by (metis add.assoc mset_append mset_eq_imp_distinct_iff)
  then have dis: "b \<notin> set (request_buf r @ response_buf r)"
    if "b \<in> set (owned_bufs (reqs s) (without a n))" for b
    using that by auto
  have own: "set (owned n) = insert a (set (owned (without a n)))"
    using without_owned [OF a] by (metis set_mset_add_mset_insert set_mset_mset)
  have "distinct (a # owned (without a n))"
    using ser_okD(3) [OF ok] without_owned [OF a] by (metis mset.simps(2) mset_eq_imp_distinct_iff)
  then have fresh: "reqs s' x = reqs s x" if "x \<in> set (owned (without a n))" for x
    using that s'(3) by auto
  have bufs: "set (owned_bufs (reqs s) n) =
      set (request_buf r @ response_buf r) \<union> set (owned_bufs (reqs s) (without a n))"
    using without_bufs [of a n "reqs s", OF a r] by (metis mset_append set_append set_mset_mset)
  show ?thesis
  proof (rule wf_update [OF wf n])
    show "ser_ok (reqs s') (bufs s') (without a n)"
      by (rule ser_ok_frame [OF without_ok [OF ok a] fresh]) (use dis bf in blast)+
    show "reqs s' x = reqs s x" if "x \<notin> set (owned n)" for x
      using that own s'(3) by auto
    show "bufs s' b = bufs s b" if "b \<notin> set (owned_bufs (reqs s) n)" for b
      using that bufs by (intro bf) blast
    show "b \<in> set (owned_bufs (reqs s) n) \<or> bufs s b = None"
      if "b \<in> set (owned_bufs (reqs s') (without a n))" for b
      using that bufs owned_bufs_cong [OF fresh] by auto
  qed (use s' own in auto)
qed


text \<open>A completed request can be delivered when it has a response.\<close>

definition ready :: "RequestNode \<Rightarrow> bool" where
  "ready r \<longleftrightarrow> response_shm_mode r \<or> result_cmd r = LINBER_REQUEST_SUCCESS"

definition all_ready :: "kstate \<Rightarrow> bool" where
  "all_ready s \<longleftrightarrow> (\<forall>sn n. sers s sn = Some n \<longrightarrow>
     (\<forall>a \<in> set (Completed_RequestsHead n). \<forall>r. reqs s a = Some r \<longrightarrow> ready r))"

text \<open>What linber_request_service_get_response does with the request it found.\<close>

definition deliver :: "request_params \<Rightarrow> addr \<Rightarrow> RequestNode \<Rightarrow> kstate \<Rightarrow> outcome" where
  "deliver rp a r s =
     (let finish = (\<lambda>s.
        bnd (if request_shm_mode r then Inr s else kfree_buf (request r) s) (\<lambda>s.
        bnd (kfree_req a s) (\<lambda>s. Inr (Done (result_cmd r), s))))
      in if response_shm_mode r then finish s
         else bnd (load_buf (response r) s) (\<lambda>data.
           CHECK_MEMORY_ERROR
             (copy_to_user (ptr_response rp) (take (unat (response_len r)) data) s) s (\<lambda>s.
           bnd (kfree_buf (response r) s) finish)))"

lemma get_response_found:
  assumes wf: "well_formed s" and look: "lookup s u = Some sn" and n: "sers s sn = Some n"
    and alive: "\<not> destroy_me n" and tok: "get_user_long (ptr_token rp) s = Some tok"
    and found: "find_token (token_at s) tok (Completed_RequestsHead n) = Inr (Some a)"
    and r: "reqs s a = Some r"
  shows "linber_request_service_get_response env u rp s =
    deliver rp a r (s\<lparr>sers := (sers s)(sn \<mapsto> without a n)\<rparr>)"
  using get_Completed_Request_eq [OF n wf_serD [OF wf n] found] look n alive tok r
  by (simp add: linber_request_service_get_response_def linber_request_service_get_response_found_def findService_wf [OF wf] load_ser_def
      CHECK_MEMORY_ERROR_def load_req_def deliver_def without_def Let_def)

lemma get_response_absent:
  assumes wf: "well_formed s" and look: "lookup s u = Some sn" and n: "sers s sn = Some n"
    and alive: "\<not> destroy_me n" and tok: "get_user_long (ptr_token rp) s = Some tok"
    and absent: "find_token (token_at s) tok (Completed_RequestsHead n) = Inr None"
  shows "linber_request_service_get_response env u rp s = Inl Wild_pointer"
  using get_Completed_Request_eq [OF n wf_serD [OF wf n] absent] look n alive tok
  by (simp add: linber_request_service_get_response_def linber_request_service_get_response_found_def findService_wf [OF wf] load_ser_def
      CHECK_MEMORY_ERROR_def)

text \<open>The state after the delivery, up to the user's memory.\<close>

definition released :: "addr \<Rightarrow> RequestNode \<Rightarrow> addr \<Rightarrow> ServiceNode \<Rightarrow> kstate \<Rightarrow> kstate" where
  "released a r sn n s = s\<lparr>sers := (sers s)(sn \<mapsto> without a n), reqs := (reqs s)(a := None),
     bufs := (bufs s) |` (- set (request_buf r @ response_buf r))\<rparr>"

lemma released_wf:
  assumes "well_formed s" and "sers s sn = Some n" and "a \<in> set (Completed_RequestsHead n)"
    and "reqs s a = Some r"
  shows "well_formed (released a r sn n s)"
  by (rule delivered_wf [OF assms]) (simp_all add: released_def same_globals_def restrict_map_def)

lemma completed_bufs:
  assumes ok: "ser_ok rq bf n" and a: "a \<in> set (Completed_RequestsHead n)" and r: "rq a = Some r"
  shows "\<not> request_shm_mode r \<Longrightarrow> buf_len bf (request r) (request_len r)"
    and "ready r \<Longrightarrow> \<not> response_shm_mode r \<Longrightarrow> buf_len bf (response r) (response_len r)"
    and "ready r \<Longrightarrow> \<not> request_shm_mode r \<Longrightarrow> \<not> response_shm_mode r \<Longrightarrow> request r \<noteq> response r"
proof -
  from a have "a \<in> set (owned n)" by (simp add: owned_def)
  with ser_ok_owned [OF ok] r show "\<not> request_shm_mode r \<Longrightarrow> buf_len bf (request r) (request_len r)"
    by (fastforce simp: request_ok_def)
  from ser_ok_completed [OF ok a] r
  show "ready r \<Longrightarrow> \<not> response_shm_mode r \<Longrightarrow> buf_len bf (response r) (response_len r)"
    by (auto simp: response_ok_def ready_def)
  have "distinct (request_buf r @ response_buf r)"
    using ser_okD(4) [OF ok] without_bufs [of a n rq, OF a r]
    by (metis distinct_append mset_append mset_eq_imp_distinct_iff)
  then show "ready r \<Longrightarrow> \<not> request_shm_mode r \<Longrightarrow> \<not> response_shm_mode r \<Longrightarrow> request r \<noteq> response r"
    by (simp add: request_buf_def response_buf_def ready_def)
qed

text \<open>
  Delivering a ready response: the user's buffer receives exactly the response, the request
  and its buffers are freed and the result of the worker is returned.
\<close>

lemma deliver_eq:
  assumes wf: "well_formed s" and n: "sers s sn = Some n"
    and a: "a \<in> set (Completed_RequestsHead n)" and r: "reqs s a = Some r" and rdy: "ready r"
  shows "deliver rp a r (s\<lparr>sers := (sers s)(sn \<mapsto> without a n)\<rparr>) =
    (if response_shm_mode r then Inr (Done (result_cmd r), released a r sn n s)
     else case copy_to_user (ptr_response rp) (the (bufs s (response r))) s of
        None \<Rightarrow> Inr (Done LINBER_USER_MEMORY_ERROR, s\<lparr>sers := (sers s)(sn \<mapsto> without a n)\<rparr>)
      | Some s' \<Rightarrow> Inr (Done (result_cmd r), (released a r sn n s)\<lparr>umem := umem s'\<rparr>))"
proof -
  note b = completed_bufs [OF wf_serD [OF wf n] a r]
  have upd: "(bufs s)(x := None) = bufs s |` (- {x})" for x
    by (auto simp: restrict_map_def)
  show ?thesis
  proof (cases "response_shm_mode r")
    case True
    with b(1) r show ?thesis
      by (auto simp: deliver_def Let_def kfree_buf_def kfree_req_def load_req_def load_buf_def
          released_def request_buf_def response_buf_def buf_len_def restrict_map_def fun_eq_iff)
  next
    case False
    from b(2) [OF rdy False] obtain data where
      d: "bufs s (response r) = Some data" "length data = unat (response_len r)"
      by (auto simp: buf_len_def)
    have bufs: "response_buf r = [response r]" using False rdy by (simp add: response_buf_def ready_def)
    have req: "request_shm_mode r \<or> (\<exists>data. bufs s (request r) = Some data \<and> request r \<noteq> response r)"
      using b(1,3) rdy False by (auto simp: buf_len_def)
    show ?thesis
    proof (cases "umem s (ptr_response rp)")
      case None
      with False d show ?thesis by (simp add: deliver_def Let_def load_buf_def copy_to_user_def
          CHECK_MEMORY_ERROR_def)
    next
      case (Some v)
      with False d req r bufs show ?thesis
        by (cases v)
          (auto simp: deliver_def Let_def load_buf_def copy_to_user_def CHECK_MEMORY_ERROR_def
            kfree_buf_def kfree_req_def load_req_def released_def request_buf_def
            restrict_map_def fun_eq_iff)
    qed
  qed
qed


lemma deliver_ok:
  assumes wf: "well_formed s" and n: "sers s sn = Some n"
    and a: "a \<in> set (Completed_RequestsHead n)" and r: "reqs s a = Some r" and rdy: "ready r"
  shows "keeps_wf (deliver rp a r (s\<lparr>sers := (sers s)(sn \<mapsto> without a n)\<rparr>)) {}"
  using deliver_eq [OF assms, of rp] released_wf [OF wf n a r] without_wf [OF wf n a]
  by (auto split: option.splits)

lemma get_response_cases [consumes 1]:
  assumes wf: "well_formed s"
  obtains (wild) "linber_request_service_get_response env u rp s = Inl Wild_pointer"
  | (refused) p where "linber_request_service_get_response env u rp s = Inr (p, s)"
  | (found) sn n a r where "sers s sn = Some n" and "a \<in> set (Completed_RequestsHead n)"
      and "reqs s a = Some r" and "linber_request_service_get_response env u rp s =
        deliver rp a r (s\<lparr>sers := (sers s)(sn \<mapsto> without a n)\<rparr>)"
proof (cases "lookup s u")
  case None
  with wf refused show ?thesis by (simp add: linber_request_service_get_response_def linber_request_service_get_response_found_def findService_wf)
next
  case (Some sn)
  obtain n where n: "sers s sn = Some n" using directory_service [OF wf Some] by metis
  show ?thesis
  proof (cases "destroy_me n \<or> get_user_long (ptr_token rp) s = None")
    case True
    with wf Some n have "\<exists>p. linber_request_service_get_response env u rp s = Inr (p, s)"
      by (auto simp: linber_request_service_get_response_def linber_request_service_get_response_found_def findService_wf load_ser_def CHECK_MEMORY_ERROR_def)
    with refused show ?thesis by blast
  next
    case False
    then obtain tok where tok: "\<not> destroy_me n" "get_user_long (ptr_token rp) s = Some tok" by auto
    have "set (Completed_RequestsHead n) \<subseteq> set (owned n)" by (auto simp: owned_def)
    from find_token_owned [OF wf_serD [OF wf n] this] obtain f
      where f: "find_token (token_at s) tok (Completed_RequestsHead n) = Inr f" by metis
    show ?thesis
    proof (cases f)
      case None
      from get_response_absent [OF wf Some n tok f [unfolded None]] show ?thesis by (rule wild)
    next
      case (Some a)
      from find_token_Some [OF f [unfolded Some]] have a: "a \<in> set (Completed_RequestsHead n)" by simp
      with ser_ok_completed [OF wf_serD [OF wf n]] obtain r where r: "reqs s a = Some r" by blast
      from get_response_found [OF wf \<open>lookup s u = Some sn\<close> n tok f [unfolded Some] r]
      show ?thesis by (rule found [OF n a r])
    qed
  qed
qed

lemma linber_get_response_ok:
  assumes wf: "well_formed s" and rdy: "all_ready s"
  shows "keeps_wf (linber_request_service_get_response env u rp s) {Wild_pointer}"
  using wf
proof (cases rule: get_response_cases [where env = env and u = u and rp = rp])
  case (found sn n a r)
  with rdy have "ready r" by (auto simp: all_ready_def)
  with found show ?thesis
    by (simp only:) (rule ends_in_mono [OF deliver_ok [OF wf found(1-3)]], simp_all)
qed (use wf in simp_all)


section \<open>Workers\<close>

definition enrolled :: "env \<Rightarrow> ServiceNode \<Rightarrow> ServiceNode" where
  "enrolled env n = n\<lparr>count_registered := count_registered n + 1, next_id := next_id n + 1,
     worker_slots := (worker_slots n)[unat (next_id n) :=
       (worker_slots n ! unat (next_id n))\<lparr>task := Some (current env)\<rparr>]\<rparr>"

lemma enrolled_serving:
  assumes "slots_ok n" and "next_id n < Max_Workers n"
  shows "map serving (worker_slots (enrolled env n)) = map serving (worker_slots n)"
    and "slots_ok (enrolled env n)"
proof -
  have i: "unat (next_id n) < length (worker_slots n)"
    and len: "length (worker_slots n) = unat (Max_Workers n)"
    using assms by (simp_all add: slots_ok_def word_less_nat_alt)
  show "map serving (worker_slots (enrolled env n)) = map serving (worker_slots n)"
    using i by (intro nth_equalityI) (simp_all add: enrolled_def nth_list_update)
  have next_id: "unat (next_id n + 1) = Suc (unat (next_id n))"
    using assms(2) by (rule unat_Suc_less)
  have "(task (worker_slots (enrolled env n) ! j) = None \<longleftrightarrow> unat (next_id n + 1) \<le> j) \<and>
      (task (worker_slots (enrolled env n) ! j) = None \<longrightarrow>
       serving (worker_slots (enrolled env n) ! j) = None)" if j: "j < length (worker_slots n)" for j
  proof (cases "j = unat (next_id n)")
    case True
    with i next_id show ?thesis by (simp add: enrolled_def)
  next
    case False
    with assms(1) j next_id show ?thesis by (auto simp: enrolled_def slots_ok_def)
  qed
  moreover have "next_id n + 1 \<le> Max_Workers n"
    using assms(2) next_id by (simp add: word_less_nat_alt word_le_nat_alt)
  ultimately show "slots_ok (enrolled env n)"
    using len by (simp add: slots_ok_def enrolled_def)
qed

lemma serving_list_cong:
  "map serving ws = map serving vs \<Longrightarrow> serving_list ws = serving_list vs"
proof -
  have "serving_list xs = concat (map (case_option [] (\<lambda>a. [a])) (map serving xs))" for xs
    by (induction xs) simp_all
  then show "map serving ws = map serving vs \<Longrightarrow> serving_list ws = serving_list vs" by metis
qed

lemma enrolled_wf:
  assumes wf: "well_formed s" and n: "sers s sn = Some n" and free: "next_id n < Max_Workers n"
  shows "well_formed (s\<lparr>sers := (sers s)(sn \<mapsto> enrolled env n)\<rparr>)"
proof -
  note ok = wf_serD [OF wf n]
  note e = enrolled_serving [OF ser_okD(5) [OF ok] free, of env]
  have own: "owned (enrolled env n) = owned n"
    using serving_list_cong [OF e(1)] by (simp add: owned_def) (simp add: enrolled_def)
  have "ser_ok (reqs s) (bufs s) (enrolled env n)"
    by (rule ser_ok_move(1) [OF ok, where new = "[]"])
      (use own e(2) ser_okD [OF ok] in \<open>simp_all, simp_all add: enrolled_def\<close>)
  then show ?thesis
    by (intro wf_update_ser [OF wf n]) (use own in \<open>simp_all, simp_all add: enrolled_def\<close>)
qed

lemma register_worker_eq:
  assumes wf: "well_formed s" and look: "lookup s u = Some sn" and n: "sers s sn = Some n"
  shows "linber_register_service_worker env u rw s =
    (if \<not> Service_check_Worker n (rw_service_token rw) 0 then Inr (Done (- 1), s)
     else if next_id n < Max_Workers n then
       (let s' = s\<lparr>sers := (sers s)(sn \<mapsto> enrolled env n)\<rparr>
        in case put_user (UInt (next_id n)) (ptr_worker_id rw) s' of
             None \<Rightarrow> Inr (Done LINBER_USER_MEMORY_ERROR, s')
           | Some s'' \<Rightarrow> Inr (Done 0, Dispatch_as_BestEffort env s''))
     else Inr (Done 0, s))"
proof -
  have "enrolled env n = n\<lparr>count_registered := count_registered n + 1, next_id := next_id n + 1,
      worker_slots := (worker_slots n)[unat (next_id n) :=
        (worker_slots n ! unat (next_id n))\<lparr>task := Some (current env)\<rparr>]\<rparr>"
    by (simp add: enrolled_def)
  with look n ser_okD(1) [OF wf_serD [OF wf n]] show ?thesis
    by (simp add: linber_register_service_worker_def linber_register_service_worker_found_def findService_wf [OF wf] load_ser_def
        mutex_lock_ser_def mutex_unlock_ser_def modify_ser_def unlocking CHECK_MEMORY_ERROR_def Let_def)
qed

lemma linber_register_service_worker_ok:
  assumes wf: "well_formed s"
  shows "keeps_wf (linber_register_service_worker env u rw s) {}"
proof (cases "lookup s u")
  case None
  with wf show ?thesis by (simp add: linber_register_service_worker_def linber_register_service_worker_found_def findService_wf)
next
  case (Some sn)
  obtain n where n: "sers s sn = Some n" using directory_service [OF wf Some] by metis
  from register_worker_eq [OF wf Some n, of env rw] enrolled_wf [OF wf n, of env] wf show ?thesis
    by (auto simp: Let_def put_user_wf split: option.splits)
qed


lemma decrease_ok:
  assumes "well_formed s" and "sers s sn = Some n"
  shows "keeps_wf (bnd (decrease_workers sn s) (\<lambda>s. Inr (p, s))) F"
  using decrease_workers_eq [OF assms(2) ser_okD(1) [OF wf_serD [OF assms]]] decrease_workers_wf [OF assms]
  by simp

lemma linber_Start_Job_ok:
  assumes wf: "well_formed s"
  shows "keeps_wf (linber_Start_Job env u sj s) {Null_deref}"
  unfolding linber_Start_Job_def linber_Start_Job_found_def
proof (rule with_service [OF wf], goal_cases)
  case (2 sn n)
  have "ends_in (worker_wait_for_request env sn (sj_worker_id sj) s) {Null_deref}
      (\<lambda>(r, s'). keeps_wf (case r of None \<Rightarrow> Inr (Done LINBER_SERVICE_SKIP_JOB, s')
        | Some i \<Rightarrow> Inr (Wait_job sn (sj_worker_id sj), s')) {Null_deref})"
    by (rule ends_in_weaken [OF worker_wait_for_request_ok [OF wf 2(2)]]) (auto split: option.split)
  with decrease_ok [OF wf 2(2)] show ?case by (simp add: case_prod_unfold)
qed (use wf in simp)

text \<open>A worker that waits holds a registered id; it wakes in a service that still exists.\<close>

lemma start_job_woken_ok:
  assumes wf: "well_formed s" and env: "rb_ok (rb_reqs env)" "rb_ok (rb_sers env)"
    and n: "sers s sn = Some n" and w: "w < next_id n"
  shows "keeps_wf (start_job_woken env sj sn w s) {}"
proof -
  from w have i: "unat w < unat (next_id n)" by (simp add: word_less_nat_alt)
  show ?thesis
    unfolding start_job_woken_def ends_in_simps
    by (rule ends_in_weaken [OF worker_woken_ok [OF wf env n i]])
      (auto simp: load_req_def load_ser_def Let_def put_user_wf split: option.splits)
qed

lemma linber_Start_Job_get_request_ok:
  assumes wf: "well_formed s"
  shows "keeps_wf (linber_Start_Job_get_request env u sj s) {Null_deref, Wild_pointer}"
  unfolding linber_Start_Job_get_request_def linber_Start_Job_get_request_found_def
proof (rule with_service [OF wf], goal_cases)
  case (2 sn n)
  note ok = wf_serD [OF wf 2(2)]
  have job: "keeps_wf (case serving (worker_slots n ! i) of None \<Rightarrow> Inr (Done LINBER_SERVICE_SKIP_JOB, s)
      | Some a \<Rightarrow> bnd (load_req a s) (\<lambda>r. bnd (load_buf (request r) s) (\<lambda>data.
          CHECK_MEMORY_ERROR (copy_to_user (sj_data sj) (take (unat (request_len r)) data) s) s
            (\<lambda>s. Inr (Done 0, s))))) {Null_deref, Wild_pointer}"
    if "w < next_id n" "i = unat w" for i w
  proof (cases "serving (worker_slots n ! i)")
    case (Some a)
    from serving_owned(1) [OF _ Some] slot_in_range(1) [OF ser_okD(5) [OF ok]] that
    have "a \<in> set (owned n)" by simp
    with ser_ok_owned [OF ok] obtain r where "reqs s a = Some r" by blast
    with Some wf show ?thesis
      by (auto simp: load_req_def load_buf_def copy_to_user_wf split: option.splits)
  qed (use wf in simp)
  have "ends_in (get_worker_by_id env n (sj_worker_id sj)) {Null_deref, Wild_pointer}
      (\<lambda>worker. keeps_wf (case worker of None \<Rightarrow> Inr (Done 0, s) | Some i \<Rightarrow>
        (case serving (worker_slots n ! i) of None \<Rightarrow> Inr (Done LINBER_SERVICE_SKIP_JOB, s)
         | Some a \<Rightarrow> bnd (load_req a s) (\<lambda>r. bnd (load_buf (request r) s) (\<lambda>data.
            CHECK_MEMORY_ERROR (copy_to_user (sj_data sj) (take (unat (request_len r)) data) s) s
              (\<lambda>s. Inr (Done 0, s)))))) {Null_deref, Wild_pointer})"
  proof (rule ends_in_mono [OF get_worker_by_id_ok [OF ser_okD(5) [OF ok]]], goal_cases)
    case (2 worker)
    with wf show ?case by (cases worker) (simp, simp only: option.case, blast intro: job)
  qed simp
  with decrease_ok [OF wf 2(2)] show ?case by (simp only: ends_in_simps if_split) simp
qed (use wf in simp)

lemma linber_destroy_service_ok:
  assumes wf: "well_formed s" and env: "rb_ok (rb_reqs env)" "rb_ok (rb_sers env)"
  shows "keeps_wf (linber_destroy_service env u tok s) {}"
  unfolding linber_destroy_service_def linber_destroy_service_found_def
proof (rule with_service [OF wf], goal_cases)
  case (2 sn n)
  from destroy_service_wf [OF wf env 2(2)] obtain s'
    where "destroy_service env sn s = Inr s'" "well_formed s'" by metis
  with wf show ?case by simp
qed (use wf in simp)


section \<open>linber_End_Job\<close>

text \<open>The request as End_Job leaves it, apart from its response.\<close>

definition answered :: "end_job \<Rightarrow> RequestNode \<Rightarrow> RequestNode" where
  "answered ej r = r\<lparr>response_len := ej_response_len ej,
     response_shm_mode := (ej_response_shm_mode ej = 1)\<rparr>"

definition woken :: "RequestNode \<Rightarrow> RequestNode" where
  "woken r = r\<lparr>Request_sem := Suc (Request_sem r)\<rparr>"

lemma same_payload_answered [simp]:
  "same_payload r (answered ej r)" "same_payload r ((answered ej r)\<lparr>response := x\<rparr>)"
  "same_payload r (woken ((answered ej r)\<lparr>response := x, result_cmd := c\<rparr>))"
  "same_payload r (woken ((answered ej r)\<lparr>result_cmd := c\<rparr>))"
  by (simp_all add: same_payload_def answered_def woken_def)

text \<open>The state after a finished job of slot i, with request r' and buffers bf.\<close>

definition handed_over ::
    "nat \<Rightarrow> addr \<Rightarrow> RequestNode \<Rightarrow> (addr \<rightharpoonup> bytes) \<Rightarrow> addr \<Rightarrow> ServiceNode \<Rightarrow> kstate \<Rightarrow> kstate" where
  "handed_over i a r' bf sn n s = s\<lparr>sers := (sers s)(sn \<mapsto> moved i a n),
     reqs := (reqs s)(a \<mapsto> woken r'), bufs := bf\<rparr>"

lemma move_after:
  assumes n: "sers s sn = Some n" and m: "\<not> service_mutex n"
    and w: "get_worker_by_id env n w = Inr (Some i)" and serv: "serving (worker_slots n ! i) = Some a"
  shows "move_from_worker_to_completed env sn w (s\<lparr>reqs := (reqs s)(a \<mapsto> r'), bufs := bf\<rparr>) =
    Inr (handed_over i a r' bf sn n s)"
  using move_from_worker_to_completed_eq [of "s\<lparr>reqs := (reqs s)(a \<mapsto> r'), bufs := bf\<rparr>" sn n env w i a r']
    assms
  by (simp add: handed_over_def woken_def)

lemma End_Job_serving:
  assumes wf: "well_formed s" and look: "lookup s u = Some sn" and n: "sers s sn = Some n"
    and chk: "Service_check_Worker n (ej_service_token ej) (ej_worker_id ej)"
    and w: "get_worker_by_id env n (ej_worker_id ej) = Inr (Some i)"
    and serv: "serving (worker_slots n ! i) = Some a" and r: "reqs s a = Some r"
  shows "linber_End_Job env u ej s =
    (let r1 = answered ej r; done = (\<lambda>r' bf. handed_over i a r' bf sn n s) in
     if ej_response_shm_mode ej = 1 then
       Inr (Done 0, done (r1\<lparr>response := set_shm_key (shm_key (ej_response ej)) (response r),
                            result_cmd := LINBER_REQUEST_SUCCESS\<rparr>) (bufs s))
     else if ej_response_len ej > LINBER_MAX_MEM_SIZE then
       Inr (Done LINBER_PAYLOAD_SIZE_ERROR, done (r1\<lparr>result_cmd := LINBER_REQUEST_FAILED\<rparr>) (bufs s))
     else case kmalloc_buffer env (ej_response_len ej) of
       None \<Rightarrow> Inr (Done LINBER_KERNEL_MEMORY_ERROR, s\<lparr>reqs := (reqs s)(a \<mapsto> r1\<lparr>response := 0\<rparr>)\<rparr>)
     | Some (b, g) \<Rightarrow>
         (case copy_from_user (ej_response ej) (unat (ej_response_len ej)) s of
            None \<Rightarrow> Inr (Done LINBER_USER_MEMORY_ERROR,
              s\<lparr>reqs := (reqs s)(a \<mapsto> r1\<lparr>response := b\<rparr>), bufs := (bufs s)(b \<mapsto> g)\<rparr>)
          | Some data \<Rightarrow> Inr (Done 0, done (r1\<lparr>response := b, result_cmd := LINBER_REQUEST_SUCCESS\<rparr>)
              ((bufs s)(b \<mapsto> data)))))"
proof -
  have plain: "s\<lparr>reqs := q\<rparr> = s\<lparr>reqs := q, bufs := bufs s\<rparr>" for q by simp
  have swap: "s\<lparr>reqs := q, bufs := f\<rparr> = s\<lparr>bufs := f, reqs := q\<rparr>" for q f by simp
  note move = move_after [OF n ser_okD(1) [OF wf_serD [OF wf n]] w serv]
  note move' = move [where bf = "bufs s", folded plain]
  have cp: "copy_from_user p k (s\<lparr>reqs := q, bufs := f\<rparr>) = copy_from_user p k s" for p k q f
    by (simp add: copy_from_user_def)
  show ?thesis
    using look n chk w serv r
    by (auto simp: linber_End_Job_def linber_End_Job_found_def findService_wf [OF wf] load_ser_def worker_get_request_def
        modify_req_def load_req_def Let_def answered_def move move' move [unfolded swap] cp CHECK_KMALLOC_ERROR_def
        CHECK_MEMORY_ERROR_def split: option.split)
qed


lemma handed_over_wf:
  assumes wf: "well_formed s" and n: "sers s sn = Some n" and i: "i < unat (next_id n)"
    and serv: "serving (worker_slots n ! i) = Some a" and r: "reqs s a = Some r"
    and r': "same_payload r (woken r')" "response_ok bf r'"
    and newbuf: "\<And>b. b \<in> set (response_buf r') \<Longrightarrow> bufs s b = None"
    and bf: "\<And>b. bufs s b \<noteq> None \<Longrightarrow> bf b = bufs s b"
  shows "well_formed (handed_over i a r' bf sn n s)"
  by (rule finished_wf [OF wf n i serv r, where r' = "woken r'" and bf = bf])
    (use assms in \<open>auto simp: handed_over_def same_globals_def woken_def response_ok_def response_buf_def
      split: if_splits\<close>)

lemma End_Job_cases [consumes 1]:
  assumes wf: "well_formed s"
  obtains (null) "linber_End_Job env u ej s = Inl Null_deref"
  | (refused) p where "linber_End_Job env u ej s = Inr (p, s)"
  | (stranger) sn n p where "sers s sn = Some n" and "linber_End_Job env u ej s =
      Inr (p, s\<lparr>sers := (sers s)(sn \<mapsto> n\<lparr>count_registered := count_registered n - 1\<rparr>)\<rparr>)"
  | (serving) sn n i a r where "lookup s u = Some sn" and "sers s sn = Some n"
      and "Service_check_Worker n (ej_service_token ej) (ej_worker_id ej)"
      and "get_worker_by_id env n (ej_worker_id ej) = Inr (Some i)"
      and "serving (worker_slots n ! i) = Some a" and "reqs s a = Some r"
      and "i < length (worker_slots n)" and "i < unat (next_id n)"
proof (cases "lookup s u")
  case None
  with wf refused show ?thesis by (simp add: linber_End_Job_def linber_End_Job_found_def findService_wf)
next
  case (Some sn)
  note look = Some
  obtain n where n: "sers s sn = Some n" using directory_service [OF wf look] by metis
  note ok = wf_serD [OF wf n]
  show ?thesis
  proof (cases "Service_check_Worker n (ej_service_token ej) (ej_worker_id ej)")
    case False
    with look n show ?thesis
      by (intro stranger [OF n])
        (simp add: linber_End_Job_def linber_End_Job_found_def findService_wf [OF wf] load_ser_def
          decrease_workers_eq [OF n ser_okD(1) [OF ok]])
  next
    case chk: True
    from get_worker_by_id_ok [OF ser_okD(5) [OF ok], of env "ej_worker_id ej"] show ?thesis
    proof (cases rule: ends_in_cases)
      case (1 e)
      with look n chk show ?thesis
        by (intro null) (simp add: linber_End_Job_def linber_End_Job_found_def findService_wf [OF wf] load_ser_def worker_get_request_def)
    next
      case (2 worker)
      consider "worker = None \<or> (\<exists>i. worker = Some i \<and> serving (worker_slots n ! i) = None)"
        | i a where "worker = Some i" "serving (worker_slots n ! i) = Some a" by fastforce
      then show ?thesis
      proof cases
        case (2 i a)
        with \<open>get_worker_by_id env n (ej_worker_id ej) = Inr worker\<close> \<open>\<forall>i. _ i\<close>
        have i: "i = unat (ej_worker_id ej)" "ej_worker_id ej < next_id n" by simp_all
        note rng = slot_in_range [OF ser_okD(5) [OF ok] i(2), folded i(1)]
        from ser_ok_owned [OF ok serving_owned(1) [OF rng(1) 2(2)]] obtain r where r: "reqs s a = Some r" by blast
        from 2(1) \<open>get_worker_by_id env n (ej_worker_id ej) = Inr worker\<close> show ?thesis
          by (intro serving [OF look n chk _ 2(2) r rng]) simp
      next
        case 1
        with \<open>get_worker_by_id env n (ej_worker_id ej) = Inr worker\<close> look n chk
        have "linber_End_Job env u ej s = Inr (Done LINBER_SERVICE_SKIP_JOB, s)"
          by (auto simp: linber_End_Job_def linber_End_Job_found_def findService_wf [OF wf] load_ser_def worker_get_request_def)
        then show ?thesis by (rule refused)
      qed
    qed
  qed
qed

lemma linber_End_Job_ok:
  assumes wf: "well_formed s" and env: "env_ok env s"
  shows "keeps_wf (linber_End_Job env u ej s) {Null_deref}"
  using wf
proof (cases rule: End_Job_cases [where env = env and u = u and ej = ej])
  case (serving sn n i a r)
  note n = serving(2) and rng = serving(7,8)
  let ?r = "answered ej r"
  note over = handed_over_wf [OF wf n rng(2) serving(5,6)]
  have touch: "well_formed (s\<lparr>reqs := (reqs s)(a \<mapsto> ?r\<lparr>response := x\<rparr>)\<rparr>)" for x
    by (rule wf_touch_serving [OF wf n rng(1) serving(5,6)]) simp
  have shm: "well_formed (handed_over i a (?r\<lparr>response := x, result_cmd := LINBER_REQUEST_SUCCESS\<rparr>)
      (bufs s) sn n s)" if "ej_response_shm_mode ej = 1" for x
    by (rule over) (use that in \<open>simp_all, simp_all add: answered_def response_ok_def response_buf_def\<close>)
  have big: "well_formed (handed_over i a (?r\<lparr>result_cmd := LINBER_REQUEST_FAILED\<rparr>) (bufs s) sn n s)"
    by (rule over) (simp_all add: response_ok_def response_buf_def codes)
  have fresh: "bufs s b = None" if "kmalloc_buffer env (ej_response_len ej) = Some (b, g)" for b g
    using env that by (simp add: env_ok_def)
  have leak: "well_formed (s\<lparr>reqs := (reqs s)(a \<mapsto> ?r\<lparr>response := b\<rparr>), bufs := (bufs s)(b \<mapsto> g)\<rparr>)"
    if "kmalloc_buffer env (ej_response_len ej) = Some (b, g)" for b g
    using wf_new_buf [OF touch [of b], of b g] fresh [OF that] by simp
  have data: "well_formed (handed_over i a (?r\<lparr>response := b, result_cmd := LINBER_REQUEST_SUCCESS\<rparr>)
      ((bufs s)(b \<mapsto> data)) sn n s)"
    if "kmalloc_buffer env (ej_response_len ej) = Some (b, g)"
      and "copy_from_user (ej_response ej) (unat (ej_response_len ej)) s = Some data" for b g data
  proof (rule over)
    have "length data = unat (ej_response_len ej)"
      using that(2) by (auto simp: copy_from_user_def split: option.splits uval.splits if_splits)
    then show "response_ok ((bufs s)(b \<mapsto> data)) (?r\<lparr>response := b, result_cmd := LINBER_REQUEST_SUCCESS\<rparr>)"
      by (simp add: response_ok_def buf_len_def answered_def)
  qed (use fresh [OF that(1)] in \<open>auto simp: response_buf_def split: if_splits\<close>)
  show ?thesis
    unfolding End_Job_serving [OF wf serving(1-6)]
    using touch shm big leak data
    by (simp add: Let_def split: option.split prod.split del: fun_upd_apply)
qed (use wf decrease_workers_wf in auto)

end
