(* ===== verification/Status_Props.thy ===== *)
theory Status_Props
  imports Handler_Props
begin

text \<open>
  linber_get_system_status: with at most MAX_SERVICES services it reports them all; the
  array is overrun with more; a URI buffer that cannot be written leaves both mutexes
  locked.
\<close>

section \<open>The loop over the services\<close>

text \<open>One entry of the report.\<close>

definition report :: "ServiceNode \<Rightarrow> service_status \<Rightarrow> service_status" where
  "report n e = e\<lparr>uri_len := of_nat (strlen (uri n)), st_Max_Working := Max_Workers n,
     requests_count := Request_count n, exec_time_ms := ucast (nSEC_TO_mSEC (exec_time_ns n)),
     period_ms := nSEC_TO_mSEC (period n), budget_ms := nSEC_TO_mSEC (budget n)\<rparr>"

lemma copy_to_user_frame:
  "copy_to_user p src s = Some s' \<Longrightarrow> \<exists>u. s' = s\<lparr>umem := u\<rparr>"
  by (auto simp: copy_to_user_def split: option.splits uval.splits if_splits)

lemma copy_to_user_sers:
  "copy_to_user p src (s\<lparr>sers := f\<rparr>) = map_option (\<lambda>s'. s'\<lparr>sers := f\<rparr>) (copy_to_user p src s)"
  by (auto simp: copy_to_user_def split: option.splits uval.splits)

text \<open>One iteration, for a service whose mutex is free.\<close>

lemma status_loop_step:
  assumes "of_nat i < Services_count s" and n: "sers s sn = Some n" and "\<not> service_mutex n"
  shows "status_loop i (sn # sns) entries s =
    (if length entries \<le> i then Inl Buffer_overflow
     else case copy_to_user (st_uri (entries ! i)) (cstr (uri n)) s of
       None \<Rightarrow> Inr (None, s\<lparr>sers := (sers s)(sn \<mapsto> n\<lparr>service_mutex := True\<rparr>)\<rparr>)
     | Some s' \<Rightarrow> status_loop (Suc i) sns (entries[i := report n (entries ! i)]) s')"
proof -
  have unlock: "n\<lparr>service_mutex := False\<rparr> = n" using assms(3) by (rule unlock_id)
  have idem: "s'\<lparr>sers := (sers s)(sn \<mapsto> n)\<rparr> = s'"
    if "copy_to_user p src s = Some s'" for p src s'
    using copy_to_user_frame [OF that] n by (auto simp: fun_upd_idem)
  show ?thesis
    using assms(1,3) n
    by (auto simp: mutex_lock_ser_def mutex_unlock_ser_def modify_ser_def load_ser_def report_def
        copy_to_user_sers unlock idem split: option.split)
qed

definition reported :: "kstate \<Rightarrow> addr list \<Rightarrow> nat \<Rightarrow> service_status list \<Rightarrow> service_status list" where
  "reported s sns i entries = fold (\<lambda>(j, sn) es. es[j := report (the (sers s sn)) (es ! j)])
     (enumerate i sns) entries"

lemma reported_simps [simp]:
  "reported s [] i es = es"
  "reported s (sn # sns) i es = reported s sns (Suc i) (es[i := report (the (sers s sn)) (es ! i)])"
  by (simp_all add: reported_def)

lemma reported_length [simp]: "length (reported s sns i es) = length es"
  by (induction sns arbitrary: i es) simp_all

text \<open>Nothing but user memory has changed, or a service's mutex was left locked as well.\<close>

definition only_umem :: "kstate \<Rightarrow> kstate \<Rightarrow> bool" where
  "only_umem s s' \<longleftrightarrow> (\<exists>u. s' = s\<lparr>umem := u\<rparr>)"

definition left_locked :: "kstate \<Rightarrow> kstate \<Rightarrow> bool" where
  "left_locked s s' \<longleftrightarrow> (\<exists>sn n. sers s sn = Some n \<and>
     only_umem (s\<lparr>sers := (sers s)(sn \<mapsto> n\<lparr>service_mutex := True\<rparr>)\<rparr>) s')"

lemma only_umem_refl [simp]: "only_umem s s"
  unfolding only_umem_def by (rule exI [of _ "umem s"]) simp

lemma left_locked_umem: "only_umem s s' \<Longrightarrow> left_locked s' t \<Longrightarrow> left_locked s t"
  by (auto simp: only_umem_def left_locked_def) blast

lemma only_umem_trans: "only_umem s s' \<Longrightarrow> only_umem s' t \<Longrightarrow> only_umem s t"
  by (auto simp: only_umem_def)

text \<open>
  The loop as a whole: an overrun when there are more services than entries, an early
  return under a service's mutex, or the report.
\<close>

lemma status_loop_ok:
  assumes "i + length sns < 2 ^ 32" and "Services_count s = of_nat (i + length sns)"
    and "\<forall>sn \<in> set sns. \<exists>n. sers s sn = Some n \<and> \<not> service_mutex n"
  shows "ends_in (status_loop i sns entries s)
    (if sns = [] \<or> i + length sns \<le> length entries then {} else {Buffer_overflow})
    (\<lambda>(es, s'). case es of
       Some es \<Rightarrow> only_umem s s' \<and> es = reported s sns i entries \<and>
         (sns = [] \<or> i + length sns \<le> length entries)
     | None \<Rightarrow> left_locked s s')"
  using assms
proof (induction sns arbitrary: i entries s)
  case (Cons sn sns)
  from Cons.prems(3) obtain n where n: "sers s sn = Some n" "\<not> service_mutex n" by auto
  have lt: "of_nat i < Services_count s"
    unfolding Cons.prems(2) by (subst of_nat_less_u32) (use Cons.prems(1) in simp_all)
  note step = status_loop_step [OF lt n]
  show ?case
  proof (cases "length entries \<le> i")
    case True
    then show ?thesis by (simp add: step del: status_loop.simps)
  next
    case False
    show ?thesis
    proof (cases "copy_to_user (st_uri (entries ! i)) (cstr (uri n)) s")
      case None
      have "left_locked s (s\<lparr>sers := (sers s)(sn \<mapsto> n\<lparr>service_mutex := True\<rparr>)\<rparr>)"
        unfolding left_locked_def using n(1) only_umem_refl by blast
      with False None show ?thesis by (simp add: step del: status_loop.simps fun_upd_apply)
    next
      case (Some s')
      then have s': "only_umem s s'" using copy_to_user_frame by (auto simp: only_umem_def)
      then have eq: "sers s' = sers s" "Services_count s' = Services_count s"
        by (auto simp: only_umem_def)
      then have rep: "reported s' = reported s" by (simp add: reported_def fun_eq_iff)
      let ?es = "entries[i := report n (entries ! i)]"
      have "ends_in (status_loop (Suc i) sns ?es s')
          (if sns = [] \<or> Suc i + length sns \<le> length ?es then {} else {Buffer_overflow})
        (\<lambda>(es, t). case es of
           Some es \<Rightarrow> only_umem s' t \<and> es = reported s' sns (Suc i) ?es \<and>
             (sns = [] \<or> Suc i + length sns \<le> length ?es)
         | None \<Rightarrow> left_locked s' t)"
        by (rule Cons.IH) (use Cons.prems eq in auto)
      then have "ends_in (status_loop (Suc i) sns ?es s')
          (if sn # sns = [] \<or> i + length (sn # sns) \<le> length entries then {} else {Buffer_overflow})
        (\<lambda>(es, t). case es of
           Some es \<Rightarrow> only_umem s t \<and> es = reported s (sn # sns) i entries \<and>
             (sn # sns = [] \<or> i + length (sn # sns) \<le> length entries)
         | None \<Rightarrow> left_locked s t)"
      proof (rule ends_in_mono, goal_cases)
        case 1
        from False show ?case by (cases sns) simp_all
      next
        case (2 x)
        obtain es t where x: "x = (es, t)" by fastforce
        show ?case
        proof (cases es)
          case None
          with 2 x left_locked_umem [OF s'] show ?thesis by simp
        next
          case (Some e)
          with 2 x have "only_umem s' t" "e = reported s sns (Suc i) ?es"
            and bound: "sns = [] \<or> Suc i + length sns \<le> length ?es" by (simp_all add: rep)
          moreover from bound False have "i + length (sn # sns) \<le> length entries"
            by (cases sns) simp_all
          ultimately show ?thesis
            using x Some n(1) only_umem_trans [OF s'] by simp
        qed
      qed
      with False Some show ?thesis by (simp add: step del: status_loop.simps)
    qed
  qed
qed simp


section \<open>The handler\<close>

lemma put_user_umem: "put_user v p s = Some s' \<Longrightarrow> only_umem s s'"
  by (auto simp: put_user_def only_umem_def split: if_splits)

lemma put_services_umem: "put_services p es n s = Some s' \<Longrightarrow> only_umem s s'"
  by (auto simp: put_services_def only_umem_def split: if_splits option.splits uval.splits)
    (metis only_umem_def only_umem_refl)

lemma get_services_length: "get_services p n s = Some es \<Longrightarrow> length es = n"
  by (auto simp: get_services_def split: option.splits uval.splits if_splits)

text \<open>The end of the handler: the entries and the summary are copied out.\<close>

definition copy_status :: "uaddr \<Rightarrow> system_status \<Rightarrow> service_status list \<Rightarrow> kstate \<Rightarrow> outcome" where
  "copy_status p system entries s =
     CHECK_MEMORY_ERROR (put_user (USystem system) p s) s (\<lambda>s.
     if length entries < unat (Services_count s) then Inl Buffer_overflow
     else CHECK_MEMORY_ERROR (put_services (services system) entries (unat (Services_count s)) s) s
       (\<lambda>s. Inr (Done 0, s)))"

lemma copy_status_ok:
  assumes "unat (Services_count s) \<le> length entries"
  shows "ends_in (copy_status p system entries s) {} (\<lambda>(r, s'). only_umem s s')"
proof (cases "put_user (USystem system) p s")
  case (Some s')
  note u = put_user_umem [OF Some]
  then have "Services_count s' = Services_count s" by (auto simp: only_umem_def)
  with Some assms u show ?thesis
    by (auto simp: copy_status_def put_services_umem intro: only_umem_trans split: option.split)
qed (simp add: copy_status_def)

lemma status_eq:
  assumes "kmalloc_status env" and "umem s p = Some (USystem sys)" and "\<not> linber_mutex s"
  shows "linber_get_system_status env p s =
    (let system = sys\<lparr>sys_Max_Working := Max_Working s, services_count := Services_count s\<rparr>
     in if 0 < Services_count s then
          (case get_services (services sys) MAX_SERVICES s of
             None \<Rightarrow> Inr (Done LINBER_USER_MEMORY_ERROR, s)
           | Some entries \<Rightarrow>
               bnd (status_loop 0 (Services s) entries (s\<lparr>linber_mutex := True\<rparr>)) (\<lambda>(entries, s).
               case entries of
                 None \<Rightarrow> Inr (Done LINBER_USER_MEMORY_ERROR, s)
               | Some entries \<Rightarrow> copy_status p system entries (mutex_unlock_linber s)))
        else copy_status p system [] s)"
  using assms
  by (simp add: linber_get_system_status_def copy_status_def Let_def mutex_lock_linber_def
      CHECK_KMALLOC_ERROR_def CHECK_MEMORY_ERROR_def cong: if_cong option.case_cong)

lemma linber_get_system_status_ok:
  assumes wf: "well_formed s" and bound: "length (Services s) < 2 ^ 32"
  shows "ends_in (linber_get_system_status env p s)
    (if length (Services s) \<le> MAX_SERVICES then {} else {Buffer_overflow})
    (\<lambda>(r, s'). only_umem s s' \<and> (r = Done 0 \<longrightarrow> length (Services s) \<le> MAX_SERVICES) \<or>
       r = Done LINBER_USER_MEMORY_ERROR \<and> left_locked (s\<lparr>linber_mutex := True\<rparr>) s')"
proof -
  from wf have count: "Services_count s = of_nat (length (Services s))"
    and lock: "\<not> linber_mutex s" by (simp_all add: well_formed_def dir_ok_def)
  then have unat_count: "unat (Services_count s) = length (Services s)"
    using bound by (simp add: unat_of_nat take_bit_nat_eq_self)
  have free: "\<forall>sn \<in> set (Services s). \<exists>n. sers s sn = Some n \<and> \<not> service_mutex n"
    using wf ser_okD(1) [OF wf_serD [OF wf]] by (auto simp: well_formed_def dir_ok_def)
  let ?l = "s\<lparr>linber_mutex := True\<rparr>"
  show ?thesis
  proof (cases "kmalloc_status env")
    case False
    then show ?thesis by (simp add: linber_get_system_status_def codes)
  next
    case kmalloc: True
    show ?thesis
    proof (cases "\<exists>sys. umem s p = Some (USystem sys)")
      case False
      with kmalloc show ?thesis
        by (auto simp: linber_get_system_status_def codes split: option.splits uval.splits)
    next
      case True
      then obtain sys where sys: "umem s p = Some (USystem sys)" by blast
      let ?sys = "sys\<lparr>sys_Max_Working := Max_Working s, services_count := Services_count s\<rparr>"
      show ?thesis
      proof (cases "Services s = []")
        case True
        with count have "Services_count s = 0" by simp
        with copy_status_ok [of s "[]" p ?sys]
        have "ends_in (copy_status p ?sys [] s) {} (\<lambda>(r, s'). only_umem s s')" by simp
        then show ?thesis
          unfolding status_eq [OF kmalloc sys lock] Let_def
          by (simp add: True \<open>Services_count s = 0\<close>) (erule ends_in_weaken, auto)
      next
        case False
        then have pos: "0 < Services_count s"
          using unat_count by (metis length_0_conv unat_0 word_gt_0)
        show ?thesis
        proof (cases "get_services (services sys) MAX_SERVICES s")
          case None
          with pos show ?thesis by (simp add: status_eq [OF kmalloc sys lock] Let_def codes)
        next
          case (Some entries)
          note len = get_services_length [OF Some]
          have "ends_in (status_loop 0 (Services s) entries ?l)
              (if Services s = [] \<or> 0 + length (Services s) \<le> length entries then {} else {Buffer_overflow})
              (\<lambda>(es, s'). case es of
                 Some es \<Rightarrow> only_umem ?l s' \<and> es = reported ?l (Services s) 0 entries \<and>
                   (Services s = [] \<or> 0 + length (Services s) \<le> length entries)
               | None \<Rightarrow> left_locked ?l s')"
            by (rule status_loop_ok) (use bound count free in simp_all)
          then have loop: "ends_in (status_loop 0 (Services s) entries ?l)
              (if length (Services s) \<le> MAX_SERVICES then {} else {Buffer_overflow})
              (\<lambda>(es, s'). case es of
                 Some es \<Rightarrow> only_umem ?l s' \<and> length es = MAX_SERVICES \<and> length (Services s) \<le> MAX_SERVICES
               | None \<Rightarrow> left_locked ?l s')"
          proof (rule ends_in_mono, goal_cases)
            case (2 x)
            obtain es s' where x: "x = (es, s')" by fastforce
            from 2 False show ?case unfolding x by (cases es) (simp_all add: len)
          qed (simp add: len)
          have finish: "ends_in (copy_status p ?sys es (mutex_unlock_linber s')) F (\<lambda>(r, t). only_umem s t)"
            if "only_umem ?l s'" "length (Services s) \<le> length es" for s' es F
          proof -
            from that(1) lock have u: "only_umem s (mutex_unlock_linber s')"
              by (auto simp: only_umem_def mutex_unlock_linber_def unlocking)
            then have "Services_count (mutex_unlock_linber s') = Services_count s"
              by (auto simp: only_umem_def)
            with that(2) unat_count show ?thesis
              by (intro ends_in_mono [OF copy_status_ok]) (auto intro: only_umem_trans [OF u])
          qed
          show ?thesis
            unfolding status_eq [OF kmalloc sys lock] Let_def using pos Some
            by (simp only: if_True option.case ends_in_simps)
              (rule ends_in_weaken [OF loop], auto split: option.split intro!: ends_in_weaken [OF finish])
        qed
      qed
    qed
  qed
qed

end
