(* ===== verification/Dispatcher_Props.thy ===== *)
theory Dispatcher_Props
  imports Status_Props
begin

text \<open>
  The dispatcher over its handlers: the contract every handler offers, as a locale, each
  handler as an instance of it, and what follows for linber_ioctl and for loading and
  unloading the module.
\<close>

section \<open>The contract of a handler\<close>

text \<open>
  A handler runs for a URI and a parameter block; pre is what it asks of the state beyond
  well-formedness, and faults are the ways it can fail to return.
\<close>

locale handler =
  fixes run :: "env \<Rightarrow> bytes \<Rightarrow> 'p \<Rightarrow> kstate \<Rightarrow> outcome"
    and pre :: "kstate \<Rightarrow> bool"
    and faults :: "fault set"
  assumes safe: "well_formed s \<Longrightarrow> env_ok env s \<Longrightarrow> pre s \<Longrightarrow> keeps_wf (run env u x s) faults"
begin

lemma returns_or_faults:
  assumes "well_formed s" and "env_ok env s" and "pre s"
  shows "(\<exists>e \<in> faults. run env u x s = Inl e) \<or> (\<exists>p s'. run env u x s = Inr (p, s') \<and> well_formed s')"
  using safe [OF assms, of u x] by (cases rule: ends_in_cases) auto

lemma within:
  "well_formed s \<Longrightarrow> env_ok env s \<Longrightarrow> pre s \<Longrightarrow> faults \<subseteq> F \<Longrightarrow> keeps_wf (run env u x s) F"
  by (rule ends_in_mono [OF safe]) auto

end

interpretation register: handler linber_register_service "\<lambda>_. True" "{List_corruption}"
  by unfold_locales (rule linber_register_service_ok)

interpretation request: handler linber_request_service "\<lambda>_. True" "{Spin}"
  by unfold_locales (rule linber_request_service_ok)

interpretation get_response: handler linber_request_service_get_response all_ready "{Wild_pointer}"
  by unfold_locales (rule linber_get_response_ok)

interpretation register_worker: handler linber_register_service_worker "\<lambda>_. True" "{}"
  by unfold_locales (rule linber_register_service_worker_ok)

interpretation start_job: handler linber_Start_Job "\<lambda>_. True" "{Null_deref}"
  by unfold_locales (rule linber_Start_Job_ok)

interpretation job_request: handler linber_Start_Job_get_request "\<lambda>_. True" "{Null_deref, Wild_pointer}"
  by unfold_locales (rule linber_Start_Job_get_request_ok)

interpretation end_job: handler linber_End_Job "\<lambda>_. True" "{Null_deref}"
  by unfold_locales (rule linber_End_Job_ok)

interpretation destroy: handler linber_destroy_service "\<lambda>_. True" "{}"
  by unfold_locales (rule linber_destroy_service_ok, simp_all add: env_ok_def)


section \<open>linber_ioctl\<close>

definition call_faults :: "fault set" where
  "call_faults = {List_corruption, Spin, Wild_pointer, Null_deref, Buffer_overflow}"

lemma call_handler_ok:
  assumes "well_formed s" and "env_ok env s" and "all_ready s"
  shows "keeps_wf (call_handler env op u obj s) call_faults"
proof (cases op)
  case IOCTL_REGISTER_SERVICE
  with register.within [OF assms(1,2), of call_faults] show ?thesis
    by (simp add: call_handler_def call_faults_def)
next
  case IOCTL_REQUEST_SERVICE
  with request.within [OF assms(1,2), of call_faults] show ?thesis
    by (simp add: call_handler_def call_faults_def)
next
  case IOCTL_REQUEST_SERVICE_GET_RESPONSE
  with get_response.within [OF assms, of call_faults] show ?thesis
    by (simp add: call_handler_def call_faults_def)
next
  case IOCTL_REGISTER_SERVICE_WORKER
  with register_worker.within [OF assms(1,2), of call_faults] show ?thesis
    by (simp add: call_handler_def)
next
  case IOCTL_START_JOB_SERVICE
  with start_job.within [OF assms(1,2), of call_faults] show ?thesis
    by (simp add: call_handler_def call_faults_def)
next
  case IOCTL_START_JOB_GET_REQUEST_SERVICE
  with job_request.within [OF assms(1,2), of call_faults] show ?thesis
    by (simp add: call_handler_def call_faults_def)
next
  case IOCTL_END_JOB_SERVICE
  with end_job.within [OF assms(1,2), of call_faults] show ?thesis
    by (simp add: call_handler_def call_faults_def)
next
  case IOCTL_DESTROY_SERVICE
  with destroy.within [OF assms(1,2), of call_faults] show ?thesis
    by (simp add: call_handler_def)
qed (use assms in \<open>simp_all add: call_handler_def\<close>)

lemma only_umem_wf: "only_umem s s' \<Longrightarrow> well_formed s \<Longrightarrow> well_formed s'"
  by (auto simp: only_umem_def)

lemma linber_ioctl_ok:
  assumes "well_formed s" and "env_ok env s" and "all_ready s" and "length (Services s) < 2 ^ 32"
  shows "ends_in (linber_ioctl env op p s) call_faults
    (\<lambda>(r, s'). well_formed s' \<or> op = IOCTL_SYSTEM_STATUS \<and>
       r = Done LINBER_USER_MEMORY_ERROR \<and> left_locked (s\<lparr>linber_mutex := True\<rparr>) s')"
proof (cases "op = IOCTL_SYSTEM_STATUS")
  case True
  have "ends_in (linber_get_system_status env p s) call_faults
    (\<lambda>(r, s'). well_formed s' \<or> r = Done LINBER_USER_MEMORY_ERROR \<and>
       left_locked (s\<lparr>linber_mutex := True\<rparr>) s')"
    by (rule ends_in_mono [OF linber_get_system_status_ok [OF assms(1,4)]])
      (use assms(1) in \<open>auto simp: call_faults_def dest: only_umem_wf split: if_splits\<close>)
  with True show ?thesis by (simp add: linber_ioctl_def)
next
  case False
  with assms(1) call_handler_ok [OF assms(1-3), of op] show ?thesis
    by (simp add: linber_ioctl_def call_faults_def split: option.split)
qed


section \<open>Loading and unloading\<close>

text \<open>The module's data before init_module: zeroed memory, nothing allocated.\<close>

definition fresh_module :: "kstate \<Rightarrow> bool" where
  "fresh_module s \<longleftrightarrow> sers s = Map.empty \<and> reqs s = Map.empty \<and> Services_count s = 0"

text \<open>An error pointer is not NULL.\<close>

definition device_ok :: "device_env \<Rightarrow> bool" where
  "device_ok dev \<longleftrightarrow> class_create dev \<noteq> Some 0 \<and> device_create dev \<noteq> Some 0"

lemma init_module_wf:
  assumes "fresh_module s" and "device_ok dev" and "init_module dev s = (0, ds, s')"
  shows "well_formed s'"
  using assms
  by (auto simp: init_module_def fresh_module_def device_ok_def well_formed_def dir_ok_def
      separate_def split: if_splits option.splits)

text \<open>
  Unloading: the loop has already taken a service out of the list when destroy_service
  does it again, which a service with registered workers is spared.
\<close>

definition unloading :: "addr list \<Rightarrow> kstate \<Rightarrow> bool" where
  "unloading sns s \<longleftrightarrow> distinct sns \<and> Services s = sns \<and>
     (\<forall>sn \<in> set sns. \<exists>n. sers s sn = Some n \<and> ser_ok (reqs s) (bufs s) n) \<and>
     (\<forall>x \<in> set sns. \<forall>y \<in> set sns. x \<noteq> y \<longrightarrow>
        set (owned (the (sers s x))) \<inter> set (owned (the (sers s y))) = {})"

lemma unloading_step:
  assumes "unloading (sn # sns) s" and "sers s sn = Some n"
  shows "unloading sns (s\<lparr>Services := sns, reqs := abort_all (reqs s) (idle_requests n),
    sers := (sers s)(sn \<mapsto> drained n)\<rparr>)"
proof -
  have sn: "sn \<notin> set sns" using assms(1) by (simp add: unloading_def)
  have dis: "set (idle_requests n) \<inter> set (owned m) = {}" if "x \<in> set sns" "sers s x = Some m" for x m
  proof -
    from that assms sn have "set (owned n) \<inter> set (owned m) = {}"
      unfolding unloading_def by (metis list.set_intros option.sel)
    then show ?thesis by (auto simp: idle_requests_def owned_def)
  qed
  have "ser_ok (abort_all (reqs s) (idle_requests n)) (bufs s) m" if "x \<in> set sns" "sers s x = Some m" for x m
  proof (rule ser_ok_frame [of "reqs s" "bufs s"])
    show "ser_ok (reqs s) (bufs s) m" using assms(1) that by (fastforce simp: unloading_def)
    show "abort_all (reqs s) (idle_requests n) a = reqs s a" if "a \<in> set (owned m)" for a
      using dis [OF \<open>x \<in> set sns\<close> \<open>sers s x = Some m\<close>] that by (intro abort_all_other) blast
  qed simp
  then have "\<forall>x \<in> set sns. \<exists>m. ((sers s)(sn \<mapsto> drained n)) x = Some m \<and>
      m = the (sers s x) \<and> ser_ok (abort_all (reqs s) (idle_requests n)) (bufs s) m"
    using assms(1) sn by (fastforce simp: unloading_def)
  with assms(1) sn show ?thesis
    unfolding unloading_def by simp
qed

lemma cleanup_services_corrupts:
  assumes "rb_ok (rb_reqs env)" and "unloading sns s"
    and "\<exists>sn \<in> set sns. count_registered (the (sers s sn)) = 0"
  shows "cleanup_services env sns s = Inl List_corruption"
  using assms(2,3)
proof (induction sns arbitrary: s)
  case (Cons sn sns)
  then obtain n where n: "sers s sn = Some n" "ser_ok (reqs s) (bufs s) n"
    and sn: "sn \<notin> set sns" "Services s = sn # sns" by (auto simp: unloading_def)
  let ?s = "s\<lparr>Services := sns\<rparr>"
  have D: "destroy_service env sn ?s = (if count_registered n = 0 then Inl List_corruption
      else Inr (?s\<lparr>reqs := abort_all (reqs s) (idle_requests n), sers := (sers s)(sn \<mapsto> drained n)\<rparr>))"
    using destroy_service_cases [OF assms(1), of ?s sn n] n sn(1) by (simp add: Let_def)
  show ?case
  proof (cases "count_registered n = 0")
    case True
    with D sn show ?thesis by (simp add: Let_def)
  next
    case False
    with Cons.prems(2) n(1) sn(1) have "\<exists>x \<in> set sns. count_registered
        (the (((sers s)(sn \<mapsto> drained n)) x)) = 0" by auto
    with D False sn Cons.IH [OF unloading_step [OF Cons.prems(1) n(1)]] show ?thesis
      by (simp add: Let_def)
  qed
qed simp

lemma unloading_disjoint:
  assumes "unloading (sn # sns) s" and "sers s sn = Some n" and "x \<in> set sns"
  shows "set (idle_requests n) \<inter> set (idle_requests (the (sers s x))) = {}"
proof -
  from assms have "set (owned n) \<inter> set (owned (the (sers s x))) = {}"
    unfolding unloading_def by (metis distinct.simps(2) list.set_intros option.sel)
  then show ?thesis by (auto simp: idle_requests_def owned_def)
qed

lemma cleanup_services_drains:
  assumes "rb_ok (rb_reqs env)" and "unloading sns s"
    and "\<forall>sn \<in> set sns. count_registered (the (sers s sn)) \<noteq> 0"
  shows "cleanup_services env sns s = Inr (s\<lparr>Services := [],
    reqs := abort_all (reqs s) (concat (map (\<lambda>x. idle_requests (the (sers s x))) sns)),
    sers := \<lambda>x. if x \<in> set sns then map_option drained (sers s x) else sers s x\<rparr>)"
  using assms(2,3)
proof (induction sns arbitrary: s)
  case Nil
  then show ?case by (cases s) (simp add: unloading_def)
next
  case (Cons sn sns)
  then obtain n where n: "sers s sn = Some n" "ser_ok (reqs s) (bufs s) n"
    and sn: "sn \<notin> set sns" "Services s = sn # sns" by (auto simp: unloading_def)
  let ?s = "s\<lparr>Services := sns, reqs := abort_all (reqs s) (idle_requests n), sers := (sers s)(sn \<mapsto> drained n)\<rparr>"
  have D: "destroy_service env sn (s\<lparr>Services := sns\<rparr>) = Inr ?s"
    using destroy_service_cases [OF assms(1), of "s\<lparr>Services := sns\<rparr>" sn n] n Cons.prems(2) by (simp add: Let_def)
  let ?rest = "concat (map (\<lambda>x. idle_requests (the (sers s x))) sns)"
  have same: "map (\<lambda>x. idle_requests (the (sers ?s x))) sns = map (\<lambda>x. idle_requests (the (sers s x))) sns"
    using sn(1) by auto
  have "set (idle_requests n) \<inter> set ?rest = {}"
    using unloading_disjoint [OF Cons.prems(1) n(1)] by auto
  then have "abort_all (reqs ?s) ?rest = abort_all (reqs s) (idle_requests n @ ?rest)"
    by (simp add: abort_all_append)
  moreover have "cleanup_services env sns ?s = Inr (?s\<lparr>Services := [],
      reqs := abort_all (reqs ?s) ?rest,
      sers := \<lambda>x. if x \<in> set sns then map_option drained (sers ?s x) else sers ?s x\<rparr>)"
    using Cons.IH [OF unloading_step [OF Cons.prems(1) n(1)]] Cons.prems(2) sn(1) unfolding same by auto
  moreover have "(\<lambda>x. if x \<in> set sns then map_option drained (sers ?s x) else sers ?s x) =
      (\<lambda>x. if x \<in> set (sn # sns) then map_option drained (sers s x) else sers s x)"
    using n(1) sn(1) by (auto simp: fun_eq_iff)
  ultimately show ?case using D n(1) sn by (simp add: Let_def)
qed

lemma remove_all_services_ok:
  assumes "rb_ok ops" and "length (conts t) < fuel"
  shows "remove_all_services fuel ops t = Inr Leaf"
  using assms(2)
proof (induction fuel arbitrary: t)
  case (Suc fuel)
  from Remove_first_Service_conts [OF assms(1), of t] show ?case
  proof (elim disjE conjE exE)
    fix c t' assume "Remove_first_Service ops t = (Some (Service c), t')" "conts t = c # conts t'"
    with Suc show ?thesis by simp
  qed simp
qed simp

lemma unloading_start:
  assumes wf: "well_formed s"
  shows "unloading (Services s) (s\<lparr>Services_rbtree := Leaf\<rparr>)"
proof -
  have ok: "\<exists>m. sers s x = Some m \<and> ser_ok (reqs s) (bufs s) m" if "x \<in> set (Services s)" for x
    using wf that by (auto simp: well_formed_def dir_ok_def)
  have "set (owned (the (sers s x))) \<inter> set (owned (the (sers s y))) = {}"
    if "x \<in> set (Services s)" "y \<in> set (Services s)" "x \<noteq> y" for x y
  proof -
    from ok [OF that(1)] ok [OF that(2)] obtain m k where "sers s x = Some m" "sers s y = Some k"
      by blast
    with wf that(3) show ?thesis unfolding well_formed_def separate_def by (metis option.sel)
  qed
  with ok wf show ?thesis by (simp add: unloading_def well_formed_def dir_ok_def)
qed

lemma cleanup_module_eq:
  assumes wf: "well_formed s" and ops: "rb_ok (rb_reqs env)" "rb_ok (rb_sers env)"
  shows "cleanup_module env s =
    (if \<exists>sn n. sers s sn = Some n \<and> count_registered n = 0 then Inl List_corruption
     else Inr ([Device_destroy, Class_unregister, Class_destroy, Unregister_chrdev],
       s\<lparr>Services_rbtree := Leaf, Services := [],
         reqs := abort_all (reqs s) (concat (map (\<lambda>x. idle_requests (the (sers s x))) (Services s))),
         sers := \<lambda>x. map_option drained (sers s x)\<rparr>))"
proof -
  let ?s = "s\<lparr>Services_rbtree := Leaf\<rparr>"
  have dom: "x \<in> set (Services s) \<longleftrightarrow> sers s x \<noteq> None" for x
    using wf by (auto simp: well_formed_def dir_ok_def)
  have tree: "remove_all_services (Suc (length (conts (Services_rbtree s)))) (rb_sers env)
      (Services_rbtree s) = Inr Leaf"
    by (rule remove_all_services_ok [OF ops(2)]) simp
  note start = unloading_start [OF wf]
  show ?thesis
  proof (cases "\<exists>sn n. sers s sn = Some n \<and> count_registered n = 0")
    case True
    then obtain sn n where "sers s sn = Some n" "count_registered n = 0" by blast
    with dom [of sn] have "\<exists>x \<in> set (Services ?s). count_registered (the (sers ?s x)) = 0"
      by (intro bexI [of _ sn]) simp_all
    with cleanup_services_corrupts [OF ops(1), of "Services s" ?s] start tree True show ?thesis
      by (simp add: cleanup_module_def Let_def del: remove_all_services.simps)
  next
    case False
    then have "\<forall>x \<in> set (Services s). count_registered (the (sers ?s x)) \<noteq> 0"
      by (auto simp: dom)
    moreover have "(\<lambda>x. if x \<in> set (Services s) then map_option drained (sers ?s x) else sers ?s x) =
        (\<lambda>x. map_option drained (sers s x))"
      by (auto simp: fun_eq_iff dom)
    ultimately show ?thesis
      using cleanup_services_drains [OF ops(1) start] tree False
      by (simp add: cleanup_module_def Let_def del: remove_all_services.simps)
  qed
qed

end
