(* ===== verification/Evolution.thy ===== *)
theory Evolution
  imports Dispatcher_Props
begin

text \<open>
  What the operations leave alone: a service keeps the requests it has or loses some, their
  tokens stay, the completed ones keep what the client will be given, and worker ids are
  never taken back. The tokens of a service's requests are therefore always distinct, so
  that a token names one request.
\<close>

section \<open>Evolution of a state\<close>

text \<open>
  From s to s': the service n has become n', or is new, at one of the addresses new, and has
  no requests.
\<close>

definition service_evolves :: "kstate \<Rightarrow> kstate \<Rightarrow> ServiceNode \<Rightarrow> ServiceNode \<Rightarrow> bool" where
  "service_evolves s s' n n' \<longleftrightarrow>
     mset (owned n') \<subseteq># mset (owned n) \<and> next_req_token n \<le> next_req_token n' \<and> next_id n \<le> next_id n' \<and>
     (\<forall>a \<in> set (owned n'). token_at s' a = token_at s a) \<and>
     (\<forall>a \<in> set (Completed_RequestsHead n'). \<forall>r. reqs s' a = Some r \<longrightarrow>
        ready r \<or> a \<in> set (Completed_RequestsHead n) \<and> reqs s a = Some r)"

definition evolves :: "addr set \<Rightarrow> kstate \<Rightarrow> kstate \<Rightarrow> bool" where
  "evolves new s s' \<longleftrightarrow> (\<forall>sn n'. sers s' sn = Some n' \<longrightarrow>
     (case sers s sn of None \<Rightarrow> sn \<in> new \<and> owned n' = [] | Some n \<Rightarrow> service_evolves s s' n n'))"

lemma service_evolves_refl [simp]:
  "(\<And>a. a \<in> set (owned n) \<Longrightarrow> reqs s' a = reqs s a) \<Longrightarrow> service_evolves s s' n n"
  by (auto simp: service_evolves_def token_at_def owned_def)

lemma evolves_refl [simp]: "evolves new s s"
  by (auto simp: evolves_def split: option.split)

text \<open>User memory and scheduling do not matter.\<close>

lemma evolves_cong:
  "sers t = sers s' \<Longrightarrow> reqs t = reqs s' \<Longrightarrow> evolves new s t = evolves new s s'"
  by (auto simp: evolves_def service_evolves_def token_at_def split: option.split)

lemma evolves_same:
  "sers s' = sers s \<Longrightarrow> reqs s' = reqs s \<Longrightarrow> evolves new s s'"
  using evolves_cong [of s' s new s] by simp

text \<open>An operation on the service n that rewrites only requests the service owns.\<close>

lemma evolves_update:
  assumes wf: "well_formed s" and n: "sers s sn = Some n" and n': "sers s' = (sers s)(sn := x)"
    and ev: "\<And>m. x = Some m \<Longrightarrow> service_evolves s s' n m"
    and rq: "\<And>a. a \<notin> set (owned n) \<Longrightarrow> reqs s' a = reqs s a"
  shows "evolves new s s'"
  unfolding evolves_def
proof (intro allI impI)
  fix sm m assume m: "sers s' sm = Some m"
  show "case sers s sm of None \<Rightarrow> sm \<in> new \<and> owned m = [] | Some n \<Rightarrow> service_evolves s s' n m"
  proof (cases "sm = sn")
    case True
    with m n n' ev show ?thesis by simp
  next
    case False
    with m n' have sm: "sers s sm = Some m" by simp
    with False wf n have "set (owned n) \<inter> set (owned m) = {}"
      by (auto simp: well_formed_def separate_def)
    with rq sm show ?thesis by (auto intro!: service_evolves_refl)
  qed
qed

text \<open>A service that changes nothing but fields the requests do not depend on.\<close>

lemma evolves_ser:
  assumes "well_formed s" and "sers s sn = Some n" and "sers s' = (sers s)(sn \<mapsto> n')" and "reqs s' = reqs s"
    and "mset (owned n') \<subseteq># mset (owned n)" and "next_req_token n \<le> next_req_token n'"
    and "next_id n \<le> next_id n'" and "set (Completed_RequestsHead n') \<subseteq> set (Completed_RequestsHead n)"
  shows "evolves new s s'"
proof (rule evolves_update [OF assms(1-3)])
  fix m assume "Some n' = Some m"
  with assms(4-8) show "service_evolves s s' n m"
    by (auto simp: service_evolves_def token_at_def)
qed (simp add: assms(4))


section \<open>Tokens\<close>

definition tokens_ok :: "kstate \<Rightarrow> bool" where
  "tokens_ok s \<longleftrightarrow> (\<forall>sn n. sers s sn = Some n \<longrightarrow> distinct (map (token_at s) (owned n)) \<and>
     (\<forall>a \<in> set (owned n). \<exists>t. token_at s a = Some t \<and> t < next_req_token n))"

lemma tokens_okD:
  assumes "tokens_ok s" and "sers s sn = Some n"
  shows "distinct (map (token_at s) (owned n))"
    and "a \<in> set (owned n) \<Longrightarrow> \<exists>t. token_at s a = Some t \<and> t < next_req_token n"
  using assms unfolding tokens_ok_def by blast+

lemma tokens_ok_evolves:
  assumes "evolves new s s'" and "tokens_ok s"
  shows "tokens_ok s'"
  unfolding tokens_ok_def
proof (intro allI impI)
  fix sn n' assume n': "sers s' sn = Some n'"
  show "distinct (map (token_at s') (owned n')) \<and>
    (\<forall>a \<in> set (owned n'). \<exists>t. token_at s' a = Some t \<and> t < next_req_token n')"
  proof (cases "sers s sn")
    case None
    with assms(1) n' have "owned n' = []" unfolding evolves_def by (metis option.simps(4))
    then show ?thesis by simp
  next
    case (Some n)
    with assms(1) n' have ev: "service_evolves s s' n n'" unfolding evolves_def by (metis option.simps(5))
    then have sub: "mset (owned n') \<subseteq># mset (owned n)"
      and tok: "\<And>a. a \<in> set (owned n') \<Longrightarrow> token_at s' a = token_at s a"
      and le: "next_req_token n \<le> next_req_token n'" by (simp_all add: service_evolves_def)
    from tok have eq: "map (token_at s') (owned n') = map (token_at s) (owned n')" by simp
    have "mset (map (token_at s) (owned n')) \<subseteq># mset (map (token_at s) (owned n))"
      using sub by (simp add: image_mset_subseteq_mono)
    with tokens_okD(1) [OF assms(2) Some] have "distinct (map (token_at s') (owned n'))"
      unfolding eq by (rule distinct_subseteq_mset)
    moreover have "\<exists>t. token_at s' a = Some t \<and> t < next_req_token n'" if "a \<in> set (owned n')" for a
    proof -
      have "a \<in> set (owned n)" using that sub by (metis set_mset_mono set_mset_mset subsetD)
      from tokens_okD(2) [OF assms(2) Some this] tok [OF that] le show ?thesis
        by (metis order_less_le_trans)
    qed
    ultimately show ?thesis by simp
  qed
qed

lemma all_ready_evolves:
  assumes "evolves new s s'" and "all_ready s"
  shows "all_ready s'"
  unfolding all_ready_def
proof (intro allI impI ballI)
  fix sn n' a r assume n': "sers s' sn = Some n'" and a: "a \<in> set (Completed_RequestsHead n')" and r: "reqs s' a = Some r"
  show "ready r"
  proof (cases "sers s sn")
    case None
    with assms(1) n' have "owned n' = []" unfolding evolves_def by (metis option.simps(4))
    with a show ?thesis by (simp add: owned_def)
  next
    case (Some n)
    with assms(1) n' have "service_evolves s s' n n'" unfolding evolves_def by (metis option.simps(5))
    with a r have "ready r \<or> a \<in> set (Completed_RequestsHead n) \<and> reqs s a = Some r"
      unfolding service_evolves_def by blast
    with assms(2) Some show ?thesis unfolding all_ready_def by blast
  qed
qed


section \<open>The changes of state\<close>

text \<open>The service node a registration may allocate.\<close>

definition allocated :: "env \<Rightarrow> addr set" where
  "allocated env = (case kmalloc_service env of None \<Rightarrow> {} | Some (sn, _) \<Rightarrow> {sn})"

abbreviation evolving :: "fault + 'a \<times> kstate \<Rightarrow> addr set \<Rightarrow> kstate \<Rightarrow> bool" where
  "evolving m new s \<equiv> ends_in m UNIV (\<lambda>(p, s'). evolves new s s')"

lemma evolves_user [simp]:
  "put_user v p t = Some t' \<Longrightarrow> evolves new s t' = evolves new s t"
  "copy_to_user p src t = Some t' \<Longrightarrow> evolves new s t' = evolves new s t"
  "evolves new s (Dispatch_as_BestEffort env t) = evolves new s t"
  "evolves new s (dispatch_policy env n d t) = evolves new s t"
  "evolves new s (t\<lparr>umem := u\<rparr>) = evolves new s t"
  "evolves new s (t\<lparr>bufs := b\<rparr>) = evolves new s t"
proof -
  show "evolves new s t' = evolves new s t" if "put_user v p t = Some t'"
    using that by (intro evolves_cong) (auto simp: put_user_def split: if_splits)
  show "evolves new s t' = evolves new s t" if "copy_to_user p src t = Some t'"
    using that by (intro evolves_cong) (auto simp: copy_to_user_def split: option.splits uval.splits if_splits)
qed (rule evolves_cong; simp add: Dispatch_as_BestEffort_def dispatch_policy_def Dispatch_as_RealTime_def
      apply_sched_def Let_def)+

lemma released_evolves:
  assumes wf: "well_formed s" and n: "sers s sn = Some n" and a: "a \<in> set (Completed_RequestsHead n)"
    and r: "reqs s a = Some r"
  shows "evolves new s (released a r sn n s)"
proof (rule evolves_update [OF wf n, where x = "Some (without a n)"])
  have own: "mset (owned n) = add_mset a (mset (owned (without a n)))" by (rule without_owned [OF a])
  have "distinct (a # owned (without a n))"
    using ser_okD(3) [OF wf_serD [OF wf n]] own by (metis mset.simps(2) mset_eq_imp_distinct_iff)
  then have "a \<notin> set (owned (without a n))" by simp
  then have "service_evolves s (released a r sn n s) n (without a n)"
    using own by (auto simp: service_evolves_def released_def token_at_def without_def
        dest: subsetD [OF set_remove1_subset] split: if_splits)
  then show "service_evolves s (released a r sn n s) n m" if "Some (without a n) = Some m" for m
    using that by simp
qed (use a in \<open>auto simp: released_def owned_def\<close>)

lemma without_evolves:
  assumes "well_formed s" and "sers s sn = Some n" and "a \<in> set (Completed_RequestsHead n)"
  shows "evolves new s (s\<lparr>sers := (sers s)(sn \<mapsto> without a n)\<rparr>)"
  by (rule evolves_ser [OF assms(1,2)])
    (use without_owned [OF assms(3)] in \<open>auto simp: without_def dest: subsetD [OF set_remove1_subset]\<close>)

lemma handed_over_evolves:
  assumes wf: "well_formed s" and n: "sers s sn = Some n" and i: "i < length (worker_slots n)"
    and serv: "serving (worker_slots n ! i) = Some a" and r: "reqs s a = Some r"
    and r': "token r' = token r" "ready r'"
  shows "evolves new s (handed_over i a r' bf sn n s)"
proof (rule evolves_update [OF wf n, where x = "Some (moved i a n)"])
  have "service_evolves s (handed_over i a r' bf sn n s) n (moved i a n)"
    using owned_moved [OF i serv] r r'
    by (auto simp: service_evolves_def handed_over_def token_at_def woken_def ready_def moved_def
        with_serving_def)
  then show "service_evolves s (handed_over i a r' bf sn n s) n m" if "Some (moved i a n) = Some m" for m
    using that by simp
qed (use serving_owned(1) [OF i serv] in \<open>auto simp: handed_over_def\<close>)

text \<open>A request in a worker's slot may change, but not its token.\<close>

lemma serving_evolves:
  assumes wf: "well_formed s" and n: "sers s sn = Some n" and i: "i < length (worker_slots n)"
    and serv: "serving (worker_slots n ! i) = Some a" and r: "reqs s a = Some r" "token r' = token r"
  shows "evolves new s (s\<lparr>reqs := (reqs s)(a \<mapsto> r')\<rparr>)"
proof (rule evolves_update [OF wf n, where x = "Some n"])
  show "service_evolves s (s\<lparr>reqs := (reqs s)(a \<mapsto> r')\<rparr>) n m" if "Some n = Some m" for m
    using that r serving_not_completed [OF wf_serD [OF wf n] i serv]
    by (auto simp: service_evolves_def token_at_def)
qed (use n serving_owned(1) [OF i serv] in auto)

lemma clear_slot_evolves:
  assumes "well_formed s" and "sers s sn = Some n" and "i < length (worker_slots n)"
  shows "evolves new s (s\<lparr>sers := (sers s)(sn \<mapsto> with_serving i None n)\<rparr>)"
  by (rule evolves_ser [OF assms(1,2)])
    (use owned_clear_slot [OF assms(3)] in simp_all, simp_all add: with_serving_def)

lemma taken_evolves:
  assumes "well_formed s" and "sers s sn = Some n" and "i < length (worker_slots n)"
    and "waiting (Requests_rbtree n) = (d, a) # rest" and "waiting t = rest"
  shows "evolves new s (s\<lparr>sers := (sers s)(sn \<mapsto> taken i a t n)\<rparr>)"
  by (rule evolves_ser [OF assms(1,2)])
    (use owned_taken [OF assms(3-5)] in simp_all, simp_all add: taken_def with_serving_def)

lemma decreased_evolves:
  assumes "well_formed s" and "sers s sn = Some n"
  shows "evolves new s (s\<lparr>sers := (sers s)(sn \<mapsto> n\<lparr>count_registered := c\<rparr>)\<rparr>)"
  by (rule evolves_ser [OF assms, where n' = "n\<lparr>count_registered := c\<rparr>"]) simp_all

lemma enrolled_evolves:
  assumes "well_formed s" and "sers s sn = Some n" and "next_id n < Max_Workers n"
  shows "evolves new s (s\<lparr>sers := (sers s)(sn \<mapsto> enrolled env n)\<rparr>)"
proof (rule evolves_ser [OF assms(1,2)])
  note same = enrolled_serving(1) [OF ser_okD(5) [OF wf_serD [OF assms(1,2)]] assms(3), of env]
  have "serving_list (worker_slots (enrolled env n)) = serving_list (worker_slots n)"
    using same by (rule serving_list_cong)
  then show "mset (owned (enrolled env n)) \<subseteq># mset (owned n)"
    by (simp add: owned_def) (simp add: enrolled_def)
  show "next_id n \<le> next_id (enrolled env n)"
    using unat_Suc_less [OF assms(3)] by (simp add: enrolled_def word_le_nat_alt)
qed (simp_all add: enrolled_def)

lemma gone_evolves:
  assumes "well_formed s" and "sers s sn = Some n" and "sers s' = (sers s)(sn := None)"
    and "\<And>a. a \<notin> set (owned n) \<Longrightarrow> reqs s' a = reqs s a"
  shows "evolves new s s'"
  by (rule evolves_update [OF assms(1-3)]) (use assms(4) in simp_all)

lemma drained_evolves:
  assumes wf: "well_formed s" and n: "sers s sn = Some n"
  shows "evolves new s (s\<lparr>reqs := abort_all (reqs s) (idle_requests n), sers := (sers s)(sn \<mapsto> drained n)\<rparr>)"
    (is "evolves new s ?s")
proof (rule evolves_update [OF wf n, where x = "Some (drained n)"])
  have own: "owned (drained n) = serving_list (worker_slots n)" by (simp add: owned_def drained_def)
  have "abort_all (reqs s) (idle_requests n) a = reqs s a" if "a \<in> set (owned (drained n))" for a
    using that ser_okD(3) [OF wf_serD [OF wf n]] unfolding own
    by (intro abort_all_other) (auto simp: idle_requests_def owned_def)
  moreover have "mset (owned (drained n)) \<subseteq># mset (owned n)" unfolding own by (simp add: owned_def)
  ultimately have "service_evolves s ?s n (drained n)"
    by (simp add: service_evolves_def token_at_def) (simp add: drained_def)
  then show "service_evolves s ?s n m" if "Some (drained n) = Some m" for m
    using that by simp
qed (auto simp: idle_requests_def owned_def)

lemma created_evolves:
  assumes "kmalloc_service env = Some (sn, g)" and "env_ok env s"
  shows "evolves (allocated env) s (created env u reg sn g s)"
proof -
  from assms have "sers s sn = None" by (simp add: env_ok_def)
  with assms(1) show ?thesis
    by (auto simp: evolves_def created_def allocated_def service_evolves_def token_at_def split: option.split)
qed

end
