(* ===== verification/Handler_Evolution.thy ===== *)
theory Handler_Evolution
  imports Evolution
begin

text \<open>
  Every handler but the one that queues a request lets the state evolve; that one gives the
  new request a token no request of the service has.
\<close>

section \<open>Handlers\<close>

lemma register_service_evolves:
  assumes "well_formed s" and "env_ok env s"
  shows "evolving (linber_register_service env u reg s) (allocated env) s"
proof (cases "lookup s u")
  case None
  then show ?thesis
    using create_service_eq [OF assms None, of reg] created_evolves [OF _ assms(2), of _ _ u reg] assms(1)
    by (auto simp: linber_register_service_def linber_register_service_found_def findService_wf created_def load_ser_def split: option.splits)
next
  case (Some sn)
  with assms(1) show ?thesis by (simp add: linber_register_service_def linber_register_service_found_def findService_wf)
qed

lemma deliver_evolves:
  assumes "well_formed s" and "sers s sn = Some n" and "a \<in> set (Completed_RequestsHead n)"
    and "reqs s a = Some r" and "ready r"
  shows "evolving (deliver rp a r (s\<lparr>sers := (sers s)(sn \<mapsto> without a n)\<rparr>)) new s"
  using deliver_eq [OF assms, of rp] released_evolves [OF assms(1-4)] without_evolves [OF assms(1-3)]
  by (auto split: option.splits)

lemma get_response_evolves:
  assumes wf: "well_formed s" and rdy: "all_ready s"
  shows "evolving (linber_request_service_get_response env u rp s) new s"
  using wf
proof (cases rule: get_response_cases [where env = env and u = u and rp = rp])
  case (found sn n a r)
  with rdy have "ready r" by (auto simp: all_ready_def)
  with found deliver_evolves [OF wf found(1-3)] show ?thesis by simp
qed simp_all

lemma register_worker_evolves:
  assumes wf: "well_formed s"
  shows "evolving (linber_register_service_worker env u rw s) new s"
proof (cases "lookup s u")
  case None
  with wf show ?thesis by (simp add: linber_register_service_worker_def linber_register_service_worker_found_def findService_wf)
next
  case (Some sn)
  obtain n where n: "sers s sn = Some n" using directory_service [OF wf Some] by metis
  show ?thesis
    using register_worker_eq [OF wf Some n, of env rw] enrolled_evolves [OF wf n, of new env]
    by (auto simp: Let_def split: option.splits)
qed

lemma decrease_evolves:
  assumes "well_formed s" and "sers s sn = Some n"
  shows "evolving (bnd (decrease_workers sn s) (\<lambda>s. Inr (p, s))) new s"
  using decrease_workers_eq [OF assms(2) ser_okD(1) [OF wf_serD [OF assms]]] decreased_evolves [OF assms]
  by simp

text \<open>
  The wait of a worker: the request it left in its slot is dropped and its client woken.
  The id it waits with is a registered one.
\<close>

lemma wait_for_request_evolves:
  assumes wf: "well_formed s" and n: "sers s sn = Some n"
  shows "ends_in (worker_wait_for_request env sn w s) UNIV
    (\<lambda>(r, s'). evolves new s s' \<and> (r \<noteq> None \<longrightarrow> (\<forall>n'. sers s' sn = Some n' \<longrightarrow> w < next_id n')))"
  using get_worker_by_id_ok [OF ser_okD(5) [OF wf_serD [OF wf n]], of env w]
proof (cases rule: ends_in_cases)
  case (2 r)
  show ?thesis
  proof (cases r)
    case None
    with 2 n show ?thesis by (simp add: worker_wait_for_request_def load_ser_def)
  next
    case (Some i)
    with 2 have i: "i = unat w" "w < next_id n" by simp_all
    note rng = slot_in_range [OF ser_okD(5) [OF wf_serD [OF wf n]] i(2), folded i(1)]
    show ?thesis
    proof (cases "serving (worker_slots n ! i)")
      case None
      with 2 n Some i(2) show ?thesis by (simp add: worker_wait_for_request_def load_ser_def)
    next
      case (Some a)
      from ser_ok_owned [OF wf_serD [OF wf n] serving_owned(1) [OF rng(1) Some]]
      obtain q where q: "reqs s a = Some q" by blast
      let ?n = "with_serving i None n"
      let ?s = "s\<lparr>reqs := (reqs s)(a \<mapsto> q\<lparr>Request_sem := Suc (Request_sem q)\<rparr>),
        sers := (sers s)(sn \<mapsto> ?n)\<rparr>"
      have "evolves new s ?s"
      proof (rule evolves_update [OF wf n, where x = "Some ?n"])
        have "service_evolves s ?s n ?n"
          using owned_clear_slot [OF rng(1)] q serving_not_completed [OF wf_serD [OF wf n] rng(1) Some]
          by (auto simp: service_evolves_def token_at_def with_serving_def)
        then show "service_evolves s ?s n m" if "Some ?n = Some m" for m using that by simp
      qed (use serving_owned(1) [OF rng(1) Some] in auto)
      moreover have "next_id ?n = next_id n" by (simp add: with_serving_def)
      ultimately show ?thesis
        using 2 n Some \<open>r = Some i\<close> q i(2)
        by (simp add: worker_wait_for_request_def load_ser_def up_request_def modify_req_def
            load_req_def set_serving_eq)
    qed
  qed
qed (use n in \<open>simp add: worker_wait_for_request_def load_ser_def\<close>)

lemma start_job_evolves:
  assumes wf: "well_formed s"
  shows "ends_in (linber_Start_Job env u sj s) UNIV (\<lambda>(p, s'). evolves new s s' \<and>
    (\<forall>sn w. p = Wait_job sn w \<longrightarrow> (\<forall>n'. sers s' sn = Some n' \<longrightarrow> w < next_id n')))"
  unfolding linber_Start_Job_def linber_Start_Job_found_def
proof (rule with_service [OF wf], goal_cases)
  case (2 sn n)
  have "ends_in (worker_wait_for_request env sn (sj_worker_id sj) s) UNIV
      (\<lambda>(r, s'). ends_in (case r of None \<Rightarrow> Inr (Done LINBER_SERVICE_SKIP_JOB, s')
        | Some i \<Rightarrow> Inr (Wait_job sn (sj_worker_id sj), s')) UNIV (\<lambda>(p, s'). evolves new s s' \<and>
    (\<forall>sn w. p = Wait_job sn w \<longrightarrow> (\<forall>n'. sers s' sn = Some n' \<longrightarrow> w < next_id n'))))"
    by (rule ends_in_weaken [OF wait_for_request_evolves [OF wf 2(2), where new = new]])
      (auto split: option.split)
  with decrease_workers_eq [OF 2(2) ser_okD(1) [OF wf_serD [OF wf 2(2)]]] decreased_evolves [OF wf 2(2)]
  show ?case by (simp add: case_prod_unfold)
qed simp

lemma get_request_evolves:
  assumes wf: "well_formed s"
  shows "evolving (linber_Start_Job_get_request env u sj s) new s"
  unfolding linber_Start_Job_get_request_def linber_Start_Job_get_request_found_def
proof (rule with_service [OF wf], goal_cases)
  case (2 sn n)
  have "ends_in (get_worker_by_id env n w) UNIV (\<lambda>_. True)" for w by (simp add: ends_in_def split: sum.split)
  then have "ends_in (get_worker_by_id env n (sj_worker_id sj)) UNIV (\<lambda>worker. evolving (case worker of
      None \<Rightarrow> Inr (Done 0, s)
    | Some i \<Rightarrow> (case serving (worker_slots n ! i) of None \<Rightarrow> Inr (Done LINBER_SERVICE_SKIP_JOB, s)
       | Some a \<Rightarrow> bnd (load_req a s) (\<lambda>r. bnd (load_buf (request r) s) (\<lambda>data.
          CHECK_MEMORY_ERROR (copy_to_user (sj_data sj) (take (unat (request_len r)) data) s) s
            (\<lambda>s. Inr (Done 0, s)))))) new s)"
    by (rule ends_in_weaken) (auto simp: load_req_def load_buf_def split: option.split)
  with decrease_evolves [OF wf 2(2)] show ?case by (simp only: ends_in_simps if_split) simp
qed simp

lemma end_job_evolves:
  assumes wf: "well_formed s"
    and small: "ej_response_shm_mode ej = 1 \<or> ej_response_len ej \<le> LINBER_MAX_MEM_SIZE"
  shows "evolving (linber_End_Job env u ej s) new s"
  using wf
proof (cases rule: End_Job_cases [where env = env and u = u and ej = ej])
  case (serving sn n i a r)
  let ?r = "answered ej r"
  have over: "evolves new s (handed_over i a (?r\<lparr>response := x, result_cmd := LINBER_REQUEST_SUCCESS\<rparr>) bf sn n s)"
    for x bf
    by (rule handed_over_evolves [OF wf serving(2,7,5,6)]) (simp_all add: answered_def ready_def)
  have touch: "evolves new s (s\<lparr>reqs := (reqs s)(a \<mapsto> ?r\<lparr>response := x\<rparr>)\<rparr>)" for x
    by (rule serving_evolves [OF wf serving(2,7,5,6)]) (simp add: answered_def)
  have leak: "evolves new s (s\<lparr>reqs := (reqs s)(a \<mapsto> ?r\<lparr>response := x\<rparr>), bufs := b\<rparr>)" for x b
    using touch [of x] by (rule evolves_cong [THEN iffD2, rotated -1]) simp_all
  have "ej_response_shm_mode ej \<noteq> 1 \<Longrightarrow> \<not> LINBER_MAX_MEM_SIZE < ej_response_len ej" using small by auto
  then show ?thesis
    unfolding End_Job_serving [OF wf serving(1-6)]
    using over touch leak
    by (cases "ej_response_shm_mode ej = 1")
      (simp_all add: Let_def split: option.split prod.split del: fun_upd_apply)
next
  case (stranger sn n p)
  with decreased_evolves [OF wf stranger(1)] show ?thesis by simp
qed simp_all

lemma destroy_service_evolves:
  assumes wf: "well_formed s" and env: "rb_ok (rb_reqs env)"
  shows "evolving (linber_destroy_service env u tok s) new s"
  unfolding linber_destroy_service_def linber_destroy_service_found_def
proof (rule with_service [OF wf], goal_cases)
  case (2 sn n)
  have gone: "evolves new s (unlinked env sn n (s\<lparr>reqs := abort_all (reqs s) (idle_requests n)\<rparr>))"
    by (rule gone_evolves [OF wf 2(2)]) (auto simp: unlinked_def idle_requests_def owned_def)
  from gone drained_evolves [OF wf 2(2)]
    destroy_service_eq [OF env 2(2) wf_serD [OF wf 2(2)] wf_Services [OF wf 2(2)]]
  show ?case by (simp add: Let_def)
qed simp

text \<open>The worker that wakes up.\<close>

lemma worker_woken_evolves:
  assumes wf: "well_formed s" and env: "rb_ok (rb_reqs env)"
    and n: "sers s sn = Some n" and i: "i < unat (next_id n)"
  shows "evolving (worker_woken env sn i s) new s"
proof (cases "destroy_me n")
  case True
  note alive = Service_check_alive_eq [OF n ser_okD(1) [OF wf_serD [OF wf n]] wf_Services [OF wf n]]
  have "evolves new s (unlinked env sn n s)"
    by (rule gone_evolves [OF wf n]) (simp_all add: unlinked_def)
  with True decreased_evolves [OF wf n] show ?thesis by (simp add: worker_woken_def alive)
next
  case False
  note woken = worker_woken_alive [OF env n wf_serD [OF wf n] wf_Services [OF wf n] False]
  note len = slot_length [OF ser_okD(5) [OF wf_serD [OF wf n]] i]
  show ?thesis
  proof (cases "waiting (Requests_rbtree n)")
    case (Cons x rest)
    then obtain d a where w: "waiting (Requests_rbtree n) = (d, a) # rest" by (cases x) simp
    from woken(2) [OF w] obtain t where
      "worker_woken env sn i s = Inr (Some a, s\<lparr>sers := (sers s)(sn \<mapsto> taken i a t n)\<rparr>)"
      "waiting t = rest" by blast
    with taken_evolves [OF wf n len w] show ?thesis by simp
  qed (use woken(1) in simp)
qed

lemma start_job_woken_evolves:
  assumes wf: "well_formed s" and env: "rb_ok (rb_reqs env)"
    and n: "sers s sn = Some n" and w: "w < next_id n"
  shows "evolving (start_job_woken env sj sn w s) new s"
proof -
  from w have i: "unat w < unat (next_id n)" by (simp add: word_less_nat_alt)
  show ?thesis
    unfolding start_job_woken_def ends_in_simps
    by (rule ends_in_weaken [OF worker_woken_evolves [OF wf env n i, where new = new]])
      (auto simp: load_req_def load_ser_def Let_def split: option.splits)
qed


section \<open>Queueing a request\<close>

text \<open>
  The properties of a state that are kept along its evolution, and the worker ids, which
  are never taken back.
\<close>

definition regular :: "kstate \<Rightarrow> bool" where
  "regular s \<longleftrightarrow> tokens_ok s \<and> all_ready s"

definition ids_kept :: "addr set \<Rightarrow> kstate \<Rightarrow> kstate \<Rightarrow> bool" where
  "ids_kept new s s' \<longleftrightarrow> (\<forall>sn n'. sers s' sn = Some n' \<longrightarrow>
     sn \<in> new \<or> (\<exists>n. sers s sn = Some n \<and> next_id n \<le> next_id n'))"

lemma evolves_regular: "evolves new s s' \<Longrightarrow> regular s \<Longrightarrow> regular s'"
  by (simp add: regular_def tokens_ok_evolves all_ready_evolves)

lemma evolves_ids: "evolves new s s' \<Longrightarrow> ids_kept new s s'"
  unfolding ids_kept_def
proof (intro allI impI)
  fix sn n' assume "evolves new s s'" and "sers s' sn = Some n'"
  then have "case sers s sn of None \<Rightarrow> sn \<in> new \<and> owned n' = [] | Some n \<Rightarrow> service_evolves s s' n n'"
    unfolding evolves_def by blast
  then show "sn \<in> new \<or> (\<exists>n. sers s sn = Some n \<and> next_id n \<le> next_id n')"
    by (auto simp: service_evolves_def split: option.splits)
qed

lemma ids_kept_cong: "sers t = sers s' \<Longrightarrow> ids_kept new s t = ids_kept new s s'"
  by (simp add: ids_kept_def)

lemma regular_cong: "sers t = sers s \<Longrightarrow> reqs t = reqs s \<Longrightarrow> regular t = regular s"
proof -
  assume eq: "sers t = sers s" "reqs t = reqs s"
  then have "token_at t = token_at s" by (simp add: fun_eq_iff token_at_def)
  with eq show "regular t = regular s" by (simp add: regular_def tokens_ok_def all_ready_def)
qed

text \<open>A request in new memory, with the token the service is at.\<close>

lemma regular_new:
  assumes wf: "well_formed s" and reg: "regular s" and n: "sers s sn = Some n" and fresh: "reqs s a = None"
    and s': "sers s' = (sers s)(sn \<mapsto> m)" "reqs s' = (reqs s)(a \<mapsto> r)"
    and m: "mset (owned m) \<subseteq># add_mset a (mset (owned n))" "next_req_token m = next_req_token n + 1"
      "Completed_RequestsHead m = Completed_RequestsHead n"
    and r: "token r = next_req_token n" and left_over: "next_req_token n \<noteq> - 1"
  shows "regular s'"
proof -
  have tok: "tokens_ok s" and rdy: "all_ready s" using reg by (simp_all add: regular_def)
  have other: "a \<notin> set (owned k)" if "sers s sk = Some k" for sk k
    using wf_owned_alloc [OF wf that] fresh by blast
  have same: "token_at s' x = token_at s x" if "x \<in> set (owned k)" "sers s sk = Some k" for x k sk
    using other [OF that(2)] that(1) s'(2) by (auto simp: token_at_def)
  from left_over have next_lt: "next_req_token n < next_req_token n + 1"
    using unat_Suc_less [of "next_req_token n" "- 1"] by (simp add: word_less_nat_alt word_order.not_eq_extremum)
  have new: "token_at s' a = Some (next_req_token n)" using s'(2) r by (simp add: token_at_def)
  have old: "\<exists>t. token_at s' x = Some t \<and> t < next_req_token n" if "x \<in> set (owned n)" for x
    using tokens_okD(2) [OF tok n that] same [OF that n] by simp
  have "distinct (map (token_at s') (owned n))"
    using tokens_okD(1) [OF tok n] same [OF _ n] by (simp cong: map_cong)
  with old new have dist: "distinct (map (token_at s') (a # owned n))"
    by (auto dest: old)
  have "distinct (map (token_at s') (owned m))"
    by (rule distinct_subseteq_mset [OF dist]) (use image_mset_subseteq_mono [OF m(1)] in simp)
  moreover have "\<exists>t. token_at s' x = Some t \<and> t < next_req_token m" if "x \<in> set (owned m)" for x
  proof -
    have "x \<in># add_mset a (mset (owned n))" using mset_subset_eqD [OF m(1)] that by simp
    with old [of x] new next_lt m(2) show ?thesis by (auto intro: order_less_trans)
  qed
  ultimately have "tokens_ok s'"
    using tok same s'(1) unfolding tokens_ok_def by (auto cong: map_cong split: if_splits)
  moreover have "all_ready s'"
    unfolding all_ready_def
  proof (intro allI impI ballI)
    fix sk k x q assume k: "sers s' sk = Some k" "x \<in> set (Completed_RequestsHead k)" and q: "reqs s' x = Some q"
    then obtain k' where k': "sers s sk = Some k'" "x \<in> set (Completed_RequestsHead k')"
      using s'(1) n m(3) by (auto split: if_splits)
    then have "x \<noteq> a" using other [OF k'(1)] by (auto simp: owned_def)
    with q s'(2) rdy k' show "ready q" unfolding all_ready_def by (metis fun_upd_other)
  qed
  ultimately show ?thesis by (simp add: regular_def)
qed


definition tracks :: "addr set \<Rightarrow> kstate \<Rightarrow> kstate \<Rightarrow> bool" where
  "tracks new s s' \<longleftrightarrow> regular s' \<and> ids_kept new s s'"

lemma tracks_cong: "sers t = sers s' \<Longrightarrow> reqs t = reqs s' \<Longrightarrow> tracks new s t = tracks new s s'"
  by (simp add: tracks_def regular_cong [of t s'] ids_kept_cong [of t s'])

lemma tracks_same: "regular s \<Longrightarrow> sers s' = sers s \<Longrightarrow> reqs s' = reqs s \<Longrightarrow> tracks new s s'"
  by (simp add: tracks_def regular_cong [of s' s] ids_kept_cong [of s' s]) (auto simp: ids_kept_def)

lemma evolves_tracks: "evolves new s s' \<Longrightarrow> regular s \<Longrightarrow> tracks new s s'"
  by (simp add: tracks_def evolves_regular evolves_ids)

lemma evolving_tracks: "evolving m new s \<Longrightarrow> regular s \<Longrightarrow> ends_in m UNIV (\<lambda>(p, s'). tracks new s s')"
  by (erule ends_in_weaken) (auto intro: evolves_tracks)

text \<open>The answer of a client touches its memory only.\<close>

definition same_objects :: "kstate \<Rightarrow> kstate \<Rightarrow> bool" where
  "same_objects s s' \<longleftrightarrow> sers s' = sers s \<and> reqs s' = reqs s"

lemma put_user_same: "put_user v p s = Some s' \<Longrightarrow> same_objects t s' = same_objects t s"
  by (auto simp: put_user_def same_objects_def split: if_splits)

lemma tracks_same_objects: "same_objects t s' \<Longrightarrow> tracks new s t \<Longrightarrow> tracks new s s'"
  by (simp add: same_objects_def tracks_cong [of s' t])

lemma request_completed_same:
  "same_objects t s \<Longrightarrow> ends_in (request_completed rp a s) UNIV (\<lambda>(p, s'). same_objects t s')"
  by (auto simp: request_completed_def load_req_def Let_def put_user_same split: option.split)

lemma request_queued_same:
  "same_objects t s \<Longrightarrow> ends_in (request_queued rp b a s) UNIV (\<lambda>(p, s'). same_objects t s')"
  by (auto simp: request_queued_def load_req_def put_user_same intro: request_completed_same split: option.split)

lemma enqueue_tracks:
  assumes wf: "well_formed s" and reg: "regular s" and env: "env_ok env s" and n: "sers s sn = Some n"
    and left_over: "next_req_token n \<noteq> - 1"
  shows "ends_in (enqueue_request_for_service env sn b len shm key d (s\<lparr>bufs := bf\<rparr>)) UNIV
    (\<lambda>(r, s'). tracks new s s')"
proof (cases "kmalloc_request env")
  case None
  with reg show ?thesis by (simp add: enqueue_request_no_memory tracks_same)
next
  case (Some k)
  then obtain a g where ag: "kmalloc_request env = Some (a, g)" by (cases k) simp
  with env have fresh: "reqs s a = None" and ops: "rb_ok (rb_reqs env)" by (simp_all add: env_ok_def)
  obtain ok t where I: "Insert_ReqNode_Sorted_by_Deadline (rb_reqs env) (kmalloc_container env) d a
      (Requests_rbtree n) = (ok, t)" by fastforce
  let ?r = "new_request env n b len shm key d g"
  note new = regular_new [OF wf reg n fresh]
  have ids: "ids_kept new s (s\<lparr>bufs := bf, sers := (sers s)(sn \<mapsto> m), reqs := (reqs s)(a \<mapsto> r)\<rparr>)"
    if "next_id m = next_id n" for m r
    using n that by (auto simp: ids_kept_def)
  have "mset (owned (queued env d a n)) \<subseteq># add_mset a (mset (owned n))" if ok
  proof -
    from Insert_waiting [OF ops I [unfolded that [THEN eqTrueI]]] obtain xs ys where
      "waiting (Requests_rbtree n) = xs @ ys" "waiting t = xs @ (d, a) # ys" by metis
    moreover have "Requests_rbtree (queued env d a n) = t" using I by (simp add: queued_def)
    ultimately show ?thesis by (simp add: owned_def)
  qed
  then have "tracks new s (s\<lparr>bufs := bf, sers := (sers s)(sn \<mapsto> queued env d a n), reqs := (reqs s)(a \<mapsto> ?r)\<rparr>)"
    if ok unfolding tracks_def using that
    by (intro conjI ids new [where m = "queued env d a n" and r = ?r]) (simp_all add: left_over)
  moreover have "tracks new s (s\<lparr>bufs := bf, sers := (sers s)(sn \<mapsto> n\<lparr>next_req_token := next_req_token n + 1\<rparr>),
      reqs := (reqs s)(a \<mapsto> abort ?r)\<rparr>)"
    unfolding tracks_def
    by (intro conjI ids new [where m = "n\<lparr>next_req_token := next_req_token n + 1\<rparr>" and r = "abort ?r"])
      (simp_all add: left_over)
  moreover have "sers (s\<lparr>bufs := bf\<rparr>) sn = Some n" using n by simp
  note enqueue_request_eq [OF this ser_ok_unlocked [OF wf_serD [OF wf n]] ag I, of b len shm key]
  ultimately show ?thesis by (simp add: Let_def)
qed

lemma enqueue_and_wait_tracks:
  assumes "well_formed s" and "regular s" and "env_ok env s" and "sers s sn = Some n"
    and "next_req_token n \<noteq> - 1"
  shows "ends_in (enqueue_and_wait env sn rp b key (s\<lparr>bufs := bf\<rparr>)) UNIV (\<lambda>(r, s'). tracks new s s')"
proof -
  have "ends_in (request_queued rp False a t) UNIV (\<lambda>(r, s'). tracks new s s')" if "tracks new s t" for a t
    by (rule ends_in_weaken [OF request_queued_same [of t t]])
      (use that in \<open>auto simp: same_objects_def [of t t] intro: tracks_same_objects\<close>)
  then show ?thesis
    unfolding enqueue_and_wait_def ends_in_simps
    by (intro ends_in_weaken [OF enqueue_tracks [OF assms, where new = new]]) (auto split: option.splits)
qed

lemma request_service_tracks:
  assumes wf: "well_formed s" and reg: "regular s" and env: "env_ok env s"
    and left_over: "\<And>sn n. sers s sn = Some n \<Longrightarrow> next_req_token n \<noteq> - 1"
  shows "ends_in (linber_request_service env u rp s) UNIV (\<lambda>(p, s'). tracks new s s')"
  unfolding linber_request_service_def linber_request_service_found_def
proof (rule with_service [OF wf], goal_cases)
  case (2 sn n)
  note enq = enqueue_and_wait_tracks [OF wf reg env 2(2) left_over [OF 2(2)], where new = new]
  have enq0: "ends_in (enqueue_and_wait env sn rp b key s) UNIV (\<lambda>(r, s'). tracks new s s')" for b key
    using enq [of rp b key "bufs s"] by simp
  have "ends_in (find_Waiting_or_Completed_Request sn d tok s) UNIV (\<lambda>(r, s'). s' = s)" for d tok
    by (rule ends_in_mono [OF find_Waiting_or_Completed_ok [OF 2(2) wf_serD [OF wf 2(2)]]]) auto
  then have find: "ends_in (find_Waiting_or_Completed_Request sn d tok s) UNIV (\<lambda>(r, s'). ends_in
      (case r of None \<Rightarrow> Inr (Done LINBER_REQUEST_FAILED, s')
       | Some a \<Rightarrow> bnd (load_req a s') (\<lambda>r. if client r \<noteq> current env
           then Inr (Done LINBER_REQUEST_FAILED, s') else Inr (Wait_response a, s'))) UNIV
      (\<lambda>(r, s'). tracks new s s'))" for d tok
    by (rule ends_in_weaken) (auto simp: load_req_def tracks_same [OF reg] split: option.splits)
  show ?case
    using enq enq0 find tracks_same [OF reg]
    by (auto simp: Let_def case_prod_unfold simp del: fun_upd_apply split: option.split)
qed (use tracks_same [OF reg] in simp)


section \<open>The dispatcher\<close>

text \<open>What the calls of a run are asked: no oversized response, and tokens left.\<close>

definition call_fits :: "ioctl_op \<Rightarrow> linber_service_struct \<Rightarrow> kstate \<Rightarrow> bool" where
  "call_fits op obj s \<longleftrightarrow>
     (op = IOCTL_END_JOB_SERVICE \<longrightarrow> ej_response_shm_mode (op_end_job obj) = 1 \<or>
        ej_response_len (op_end_job obj) \<le> LINBER_MAX_MEM_SIZE) \<and>
     (op = IOCTL_REQUEST_SERVICE \<longrightarrow> (\<forall>sn n. sers s sn = Some n \<longrightarrow> next_req_token n \<noteq> - 1))"

text \<open>
  The contract of a handler, with what it tracks when its arguments fit.
\<close>

locale tracking_handler = handler run pre faults
  for run :: "env \<Rightarrow> bytes \<Rightarrow> 'p \<Rightarrow> kstate \<Rightarrow> outcome" and pre faults +
  fixes fits :: "'p \<Rightarrow> kstate \<Rightarrow> bool"
  assumes tracked: "well_formed s \<Longrightarrow> env_ok env s \<Longrightarrow> regular s \<Longrightarrow> fits x s \<Longrightarrow>
    ends_in (run env u x s) UNIV (\<lambda>(p, s'). tracks (allocated env) s s')"
begin

lemma goes_on:
  assumes "well_formed s" and "env_ok env s" and "regular s" and "pre s" and "fits x s"
  shows "ends_in (run env u x s) UNIV (\<lambda>(p, s'). well_formed s' \<and> tracks (allocated env) s s')"
  using safe [OF assms(1,2,4), of u x] tracked [OF assms(1-3,5), of u]
  by (auto simp: ends_in_def split: sum.splits)

end

interpretation register_tracks: tracking_handler linber_register_service "\<lambda>_. True" "{List_corruption}"
  "\<lambda>_ _. True"
  by unfold_locales (rule evolving_tracks [OF register_service_evolves])

interpretation request_tracks: tracking_handler linber_request_service "\<lambda>_. True" "{Spin}"
  "\<lambda>_ s. \<forall>sn n. sers s sn = Some n \<longrightarrow> next_req_token n \<noteq> - 1"
  by unfold_locales (rule request_service_tracks, simp_all)

interpretation get_response_tracks: tracking_handler linber_request_service_get_response all_ready "{Wild_pointer}"
  "\<lambda>_ _. True"
  by unfold_locales (rule evolving_tracks [OF get_response_evolves], simp_all add: regular_def)

interpretation register_worker_tracks: tracking_handler linber_register_service_worker "\<lambda>_. True" "{}"
  "\<lambda>_ _. True"
  by unfold_locales (rule evolving_tracks [OF register_worker_evolves])

interpretation start_job_tracks: tracking_handler linber_Start_Job "\<lambda>_. True" "{Null_deref}" "\<lambda>_ _. True"
  by unfold_locales
    (rule evolving_tracks [OF ends_in_weaken [OF start_job_evolves]], assumption, auto)

interpretation job_request_tracks: tracking_handler linber_Start_Job_get_request "\<lambda>_. True"
  "{Null_deref, Wild_pointer}" "\<lambda>_ _. True"
  by unfold_locales (rule evolving_tracks [OF get_request_evolves])

interpretation end_job_tracks: tracking_handler linber_End_Job "\<lambda>_. True" "{Null_deref}"
  "\<lambda>ej _. ej_response_shm_mode ej = 1 \<or> ej_response_len ej \<le> LINBER_MAX_MEM_SIZE"
  by unfold_locales (rule evolving_tracks [OF end_job_evolves])

interpretation destroy_tracks: tracking_handler linber_destroy_service "\<lambda>_. True" "{}" "\<lambda>_ _. True"
  by unfold_locales (rule evolving_tracks [OF destroy_service_evolves], simp_all add: env_ok_def)

lemma call_handler_goes_on:
  assumes ok: "well_formed s" "env_ok env s" "regular s" and fits: "call_fits op obj s"
  shows "ends_in (call_handler env op u obj s) UNIV
    (\<lambda>(p, s'). well_formed s' \<and> tracks (allocated env) s s')"
proof -
  have "all_ready s" using ok(3) by (simp add: regular_def)
  then show ?thesis
    by (cases op)
      (use fits ok register_tracks.goes_on [OF ok] request_tracks.goes_on [OF ok]
        get_response_tracks.goes_on [OF ok] register_worker_tracks.goes_on [OF ok]
        start_job_tracks.goes_on [OF ok] job_request_tracks.goes_on [OF ok] end_job_tracks.goes_on [OF ok]
        destroy_tracks.goes_on [OF ok] tracks_same [OF ok(3)]
       in \<open>simp_all add: call_handler_def call_fits_def\<close>)
qed

end
