(* ===== verification/Looked_Up.thy ===== *)
theory Looked_Up
  imports Handler_Evolution
begin

text \<open>
  A call between its two halves: findService has returned and linber.mutex is free again,
  and the call has not yet used the service it found. Other calls can run there. What the
  second half does to a state that others have changed follows from what a whole call does,
  because a service that is alive is found under its own URI.
\<close>

section \<open>The second half of a call\<close>

definition has_handler :: "ioctl_op \<Rightarrow> bool" where
  "has_handler ioctl_op = (case ioctl_op of
     IOCTL_SYSTEM_STATUS \<Rightarrow> False | IOCTL_OTHER _ \<Rightarrow> False | _ \<Rightarrow> True)"

definition call_found ::
    "env \<Rightarrow> ioctl_op \<Rightarrow> bytes \<Rightarrow> linber_service_struct \<Rightarrow> addr option \<Rightarrow> kstate \<Rightarrow> outcome" where
  "call_found env ioctl_op u obj ser_node s =
     (case ioctl_op of
        IOCTL_REGISTER_SERVICE \<Rightarrow> linber_register_service_found env u (op_registration obj) ser_node s
      | IOCTL_REQUEST_SERVICE \<Rightarrow> linber_request_service_found env (op_request obj) ser_node s
      | IOCTL_REQUEST_SERVICE_GET_RESPONSE \<Rightarrow>
          linber_request_service_get_response_found env (op_request obj) ser_node s
      | IOCTL_REGISTER_SERVICE_WORKER \<Rightarrow>
          linber_register_service_worker_found env (op_register_worker obj) ser_node s
      | IOCTL_START_JOB_SERVICE \<Rightarrow> linber_Start_Job_found env (op_start_job obj) ser_node s
      | IOCTL_START_JOB_GET_REQUEST_SERVICE \<Rightarrow>
          linber_Start_Job_get_request_found env (op_start_job obj) ser_node s
      | IOCTL_END_JOB_SERVICE \<Rightarrow> linber_End_Job_found env (op_end_job obj) ser_node s
      | IOCTL_DESTROY_SERVICE \<Rightarrow> linber_destroy_service_found env (ds_service_token obj) ser_node s
      | _ \<Rightarrow> Inr (Done LINBER_IOCTL_NOT_IMPLEMENTED, s))"

lemmas found_defs = linber_register_service_found_def linber_request_service_found_def
  linber_request_service_get_response_found_def linber_register_service_worker_found_def
  linber_Start_Job_found_def linber_Start_Job_get_request_found_def linber_End_Job_found_def
  linber_destroy_service_found_def

lemmas handler_defs = linber_register_service_def linber_request_service_def
  linber_request_service_get_response_def linber_register_service_worker_def
  linber_Start_Job_def linber_Start_Job_get_request_def linber_End_Job_def linber_destroy_service_def

lemma call_handler_halves:
  "has_handler op \<Longrightarrow> call_handler env op u obj s =
    bnd (findService u s) (\<lambda>(ser_node, s). call_found env op u obj ser_node s)"
  by (cases op) (simp_all add: has_handler_def call_handler_def call_found_def handler_defs)


section \<open>A service that was found\<close>

lemma live_lookup:
  assumes "well_formed s" and "sers s sn = Some n"
  shows "lookup s (uri n) = Some sn"
proof -
  from assms(1) have dir: "dir_ok s" by (simp add: well_formed_def)
  then have tree: "uri_tree (Services_rbtree s)" by (simp add: dir_ok_def)
  from dir have "set (map Service (conts (Services_rbtree s))) = set (Services s)"
    by (metis dir_ok_def set_mset_mset)
  moreover have "sn \<in> set (Services s)" by (rule wf_Services [OF assms])
  ultimately have "sn \<in> Service ` set (conts (Services_rbtree s))" by simp
  then obtain c where c: "c \<in> set (conts (Services_rbtree s))" "Service c = sn" by blast
  with dir assms(2) have "uri n = service_uri c" unfolding dir_ok_def by fastforce
  with c tree show ?thesis by (auto simp: directory_Some_iff)
qed

lemma found_live:
  assumes "well_formed s" and "sers s sn = Some n" and "op \<noteq> IOCTL_REGISTER_SERVICE" and "has_handler op"
  shows "call_found env op u obj (Some sn) s = call_handler env op (uri n) obj s"
proof -
  have "call_found env op u obj (Some sn) s = call_found env op (uri n) obj (Some sn) s"
    using assms(3) by (cases op) (simp_all add: call_found_def)
  then show ?thesis
    using live_lookup [OF assms(1,2)] by (simp add: call_handler_halves [OF assms(4)] findService_wf [OF assms(1)])
qed

lemma found_gone:
  assumes "sers s sn = None" and "op \<noteq> IOCTL_REGISTER_SERVICE" and "has_handler op"
  shows "call_found env op u obj (Some sn) s = Inl Use_after_free"
  using assms by (cases op) (simp_all add: has_handler_def call_found_def found_defs load_ser_def)

lemma found_taken:
  "call_found env IOCTL_REGISTER_SERVICE u obj (Some sn) s = Inr (Done LINBER_SERVICE_REGISTRATION_ALREADY_EXISTS, s)"
  by (simp add: call_found_def found_defs)


section \<open>No service was found\<close>

lemma found_none:
  assumes "op \<noteq> IOCTL_REGISTER_SERVICE"
  shows "\<exists>c. call_found env op u obj None s = Inr (Done c, s)"
  using assms by (cases op) (simp_all add: call_found_def found_defs)

text \<open>Meanwhile another service has been registered under the URI.\<close>

lemma create_service_taken:
  assumes wf: "well_formed s" and env: "env_ok env s" and taken: "lookup s u \<noteq> None"
  shows "create_service env u reg s =
    (case kmalloc_service env of None \<Rightarrow> Inr (None, s) | Some _ \<Rightarrow> Inl List_corruption)"
proof (cases "kmalloc_service env")
  case (Some x)
  then obtain sn g where k: "kmalloc_service env = Some (sn, g)" by (cases x) simp
  with env have fresh: "sers s sn = None" and ops: "rb_ok (rb_reqs env)" by (simp_all add: env_ok_def)
  from wf fresh have sn: "sn \<notin> set (Services s)" and lock: "\<not> linber_mutex s"
    and tree: "uri_tree (Services_rbtree s)" by (auto simp: well_formed_def dir_ok_def)
  note ins = Insert_ServiceNode_cases(2) [OF tree disjI1 [OF taken]]
  let ?n = "fill_service (get_random_bytes env) u reg g"
  have unlinked: "destroy_service env sn (s\<lparr>sers := (sers s)(sn \<mapsto> m)\<rparr>) = Inl List_corruption"
    if "m = ?n \<or> m = new_service env u reg g" for m
    by (rule destroy_unlinked [OF ops, where n = m])
      (use sn that in \<open>auto simp: new_service_def fill_service_def\<close>)
  show ?thesis
  proof (cases "kmalloc_slots env")
    case True
    with k lock ins unlinked show ?thesis
      by (simp add: create_service_def Let_def steps new_service_def fill_service_def unlocking)
  qed (use k unlinked in \<open>simp add: create_service_def Let_def\<close>)
qed (simp add: create_service_def)

lemma found_none_register:
  assumes "well_formed s" and "env_ok env s"
  shows "call_found env IOCTL_REGISTER_SERVICE u obj None s =
    (if lookup s u = None then call_handler env IOCTL_REGISTER_SERVICE u obj s
     else case kmalloc_service env of
       None \<Rightarrow> Inr (Done LINBER_SERVICE_REGISTRATION_FAIL, s) | Some _ \<Rightarrow> Inl List_corruption)"
proof (cases "lookup s u = None")
  case True
  then show ?thesis
    using findService_wf [OF assms(1), of u] by (simp add: call_handler_halves has_handler_def)
next
  case False
  have "call_found env IOCTL_REGISTER_SERVICE u obj None s = (case kmalloc_service env of
      None \<Rightarrow> Inr (Done LINBER_SERVICE_REGISTRATION_FAIL, s) | Some _ \<Rightarrow> Inl List_corruption)"
    using create_service_taken [OF assms False] by (simp add: call_found_def found_defs split: option.split)
  then show ?thesis using if_not_P [OF False] by metis
qed


section \<open>The contract of the second half\<close>

text \<open>
  The second half is a whole call on the state as it is now, or returns a code without a
  change, or faults in one of the two ways in which the service it holds has gone stale.
\<close>

lemma call_found_cases [consumes 3]:
  assumes "well_formed s" and "env_ok env s" and "has_handler op"
  obtains (whole) v where "call_found env op u obj ser_node s = call_handler env op v obj s"
  | (refused) c where "call_found env op u obj ser_node s = Inr (Done c, s)"
  | (gone) "call_found env op u obj ser_node s = Inl Use_after_free"
  | (taken) "call_found env op u obj ser_node s = Inl List_corruption"
proof (cases ser_node)
  case None
  show ?thesis
  proof (cases "op = IOCTL_REGISTER_SERVICE")
    case True
    with found_none_register [OF assms(1,2), of u obj] None whole refused taken show ?thesis
      by (auto split: if_splits option.splits)
  next
    case False
    from found_none [OF this, of env u obj s] None refused show ?thesis by blast
  qed
next
  case (Some sn)
  show ?thesis
  proof (cases "op = IOCTL_REGISTER_SERVICE")
    case True
    with found_taken Some refused show ?thesis by blast
  next
    case False
    show ?thesis
    proof (cases "sers s sn")
      case None
      from found_gone [OF this False assms(3)] Some gone show ?thesis by blast
    next
      case (Some n)
      from found_live [OF assms(1) this False assms(3)] \<open>ser_node = Some sn\<close> whole show ?thesis by blast
    qed
  qed
qed

lemma call_found_goes_on:
  assumes "well_formed s" "env_ok env s" "regular s" and "call_fits op obj s" and op: "has_handler op"
  shows "ends_in (call_found env op u obj ser_node s) UNIV
    (\<lambda>(p, s'). well_formed s' \<and> tracks (allocated env) s s')"
  using assms(1,2) op
proof (cases rule: call_found_cases [where u = u and obj = obj and ser_node = ser_node])
  case (whole v)
  with call_handler_goes_on [OF assms(1-4)] show ?thesis by simp
qed (use assms in \<open>simp_all add: tracks_same\<close>)

text \<open>A worker that goes to sleep holds a registered id.\<close>

lemma call_found_waits:
  assumes "well_formed s" and "env_ok env s" and "has_handler op"
    and "call_found env op u obj ser_node s = Inr (Wait_job sn w, s')" and "sers s' sn = Some n"
    and "op = IOCTL_START_JOB_SERVICE"
  shows "w < next_id n"
  using assms(1-3)
proof (cases rule: call_found_cases [where u = u and obj = obj and ser_node = ser_node])
  case (whole v)
  with assms(4,6) have "linber_Start_Job env v (op_start_job obj) s = Inr (Wait_job sn w, s')"
    by (simp add: call_handler_def)
  from ends_in_Inr [OF start_job_evolves [OF assms(1)] this] assms(5) show ?thesis by simp
qed (use assms(4) in simp_all)

end
