(* ===== verification/Examples.thy ===== *)
theory Examples
  imports Dispatcher_Props
begin

text \<open>
  Small concrete states for the witnesses: one service with one worker, and one request
  that is waiting, served, or completed.
\<close>

section \<open>Surroundings\<close>

definition ex_garbage :: RequestNode where
  "ex_garbage = \<lparr>Request_sem = 3, client = 0, token = 9, abs_deadline_ns = 0, result_cmd = 7,
     request_len = 0, response_len = 0, response_shm_mode = False, request_shm_mode = False,
     request = 0, response = 77\<rparr>"

definition ex_node :: ServiceNode where
  "ex_node = \<lparr>service_mutex = False, Requests_rbtree = Leaf, Completed_RequestsHead = [],
     uri = [115], next_req_token = 1, ser_token = 42, period = 1000, budget = 100,
     exec_time_ns = 50, Request_count = 0, destroy_me = False,
     worker_slots = [\<lparr>task = Some 5, serving = None\<rparr>], Max_Workers = 1, count_registered = 1,
     next_id = 1, sem_for_request = 0\<rparr>"

text \<open>Process 5; the allocator hands out 8 for a service, 22 for a request, 33 for a buffer.\<close>

definition ex_env :: env where
  "ex_env = \<lparr>current = 5, rb_reqs = plain_ops, rb_sers = plain_ops, kmalloc_param = True,
     kmalloc_uri = True, kmalloc_request = Some (22, ex_garbage), kmalloc_service = Some (8, ex_node),
     kmalloc_slots = True, kmalloc_container = True,
     kmalloc_buffer = (\<lambda>n. Some (33, replicate (unat n) 0)), kmalloc_status = True,
     get_random_bytes = 43, ktime_get = 10, sched_setattr = (\<lambda>_. 0)\<rparr>"

definition ex_umem :: "uaddr \<rightharpoonup> uval" where
  "ex_umem = [100 \<mapsto> ULong 0, 101 \<mapsto> UBytes [0, 0], 102 \<mapsto> UBytes [6, 7], 103 \<mapsto> UInt 0, 104 \<mapsto> UInt 0]"

definition ex_empty :: kstate where
  "ex_empty = \<lparr>Services_rbtree = Leaf, Services = [], Services_count = 0, lin_Request_count = 0,
     Max_Working = 0, linber_mutex = False, sers = Map.empty, reqs = Map.empty, bufs = Map.empty,
     umem = ex_umem, sched = Map.empty\<rparr>"

text \<open>The state with the service n at address 7, the requests rq and the buffers bf.\<close>

definition ex_state :: "ServiceNode \<Rightarrow> (addr \<rightharpoonup> RequestNode) \<Rightarrow> (addr \<rightharpoonup> bytes) \<Rightarrow> kstate" where
  "ex_state n rq bf = ex_empty\<lparr>
     Services_rbtree := Node Leaf (\<lparr>service_uri = uri n, Service = 7\<rparr>, True) Leaf,
     Services := [7], Services_count := 1, Max_Working := Max_Workers n,
     sers := [7 \<mapsto> n], reqs := rq, bufs := bf\<rparr>"

text \<open>A request of process 5 at address 21 with payload [1, 2] and deadline 100.\<close>

definition ex_request :: RequestNode where
  "ex_request = \<lparr>Request_sem = 0, client = 5, token = 0, abs_deadline_ns = 100,
     result_cmd = LINBER_ABORT_REQUEST, request_len = 2, response_len = 0,
     response_shm_mode = False, request_shm_mode = False, request = 31, response = 0\<rparr>"

definition ex_done :: RequestNode where
  "ex_done = ex_request\<lparr>result_cmd := LINBER_REQUEST_SUCCESS, response_len := 2, response := 32,
     Request_sem := 1\<rparr>"

text \<open>The worker answers [6, 7]; the client asks with its token, at 100, for its buffer at 101.\<close>

definition ex_answer :: end_job where
  "ex_answer = \<lparr>ej_worker_id = 0, ej_service_token = 42, ej_response_len = 2,
     ej_response_shm_mode = 0, ej_response = 102\<rparr>"

definition ex_fetch :: request_params where
  "ex_fetch = \<lparr>blocking = 0, rp_request_shm_mode = 0, ptr_response_shm_mode = 104, status = 1,
     rp_abs_deadline_ns = 100, ptr_token = 100, rp_request_len = 2, ptr_response_len = 103,
     rp_request = 102, ptr_response = 101, ptr_shm_response_key = 103\<rparr>"

definition ex_idle :: kstate where
  "ex_idle = ex_state ex_node Map.empty Map.empty"

text \<open>Room for a second worker.\<close>

definition ex_roomy_node :: ServiceNode where
  "ex_roomy_node = ex_node\<lparr>Max_Workers := 2,
     worker_slots := [\<lparr>task = Some 5, serving = None\<rparr>, \<lparr>task = None, serving = None\<rparr>]\<rparr>"

definition ex_roomy :: kstate where
  "ex_roomy = ex_state ex_roomy_node Map.empty Map.empty"

definition ex_waiting :: kstate where
  "ex_waiting = ex_state (ex_node\<lparr>Requests_rbtree :=
     Node Leaf (\<lparr>unique_id = 100, RequestHead = [21]\<rparr>, True) Leaf, Request_count := 1\<rparr>)
     [21 \<mapsto> ex_request] [31 \<mapsto> [1, 2]]"

definition ex_serving :: kstate where
  "ex_serving = ex_state (ex_node\<lparr>worker_slots := [\<lparr>task = Some 5, serving = Some 21\<rparr>]\<rparr>)
     [21 \<mapsto> ex_request] [31 \<mapsto> [1, 2]]"

definition ex_completed :: kstate where
  "ex_completed = ex_state (ex_node\<lparr>Completed_RequestsHead := [21]\<rparr>)
     [21 \<mapsto> ex_done] [31 \<mapsto> [1, 2], 32 \<mapsto> [3, 4]]"


section \<open>They are well-formed\<close>

lemma ex_state_simps [simp]:
  "sers (ex_state n rq bf) = [7 \<mapsto> n]" "reqs (ex_state n rq bf) = rq" "bufs (ex_state n rq bf) = bf"
  "Services (ex_state n rq bf) = [7]" "umem (ex_state n rq bf) = ex_umem"
  "Services_rbtree (ex_state n rq bf) = Node Leaf (\<lparr>service_uri = uri n, Service = 7\<rparr>, True) Leaf"
  "Services_count (ex_state n rq bf) = 1"
  by (simp_all add: ex_state_def ex_empty_def)

lemma replicate_two [simp]: "replicate 2 x = [x, x]"
  by (simp add: numeral_2_eq_2)

lemma all_less_two [simp]: "(\<forall>i < 2 :: nat. P i) \<longleftrightarrow> P 0 \<and> P 1"
  "(\<forall>i < Suc (Suc 0). P i) \<longleftrightarrow> P 0 \<and> P 1"
  by (auto simp: less_Suc_eq numeral_2_eq_2)

lemma directory_single [simp]:
  "directory (Node Leaf (c, b) Leaf) = [cstr (service_uri c) \<mapsto> Service c]"
  by (simp add: directory_def)

lemma ex_state_wf:
  assumes "ser_ok rq bf n"
  shows "well_formed (ex_state n rq bf)"
  using assms
  by (auto simp: well_formed_def dir_ok_def separate_def uri_tree_def ex_state_def ex_empty_def)

lemma ex_env_ok:
  "rq 22 = None \<Longrightarrow> bf 33 = None \<Longrightarrow> env_ok ex_env (ex_state n rq bf)"
  by (auto simp: env_ok_def ex_env_def)

lemmas ex_nodes = ser_ok_def ex_node_def no_empty_queue_def waiting_def owned_def owned_bufs_def
  request_buf_def response_buf_def request_ok_def response_ok_def buf_len_def slots_ok_def
  ex_request_def ex_done_def codes

lemma ex_idle_wf [simp]: "well_formed ex_idle"
  unfolding ex_idle_def by (rule ex_state_wf) (simp add: ex_nodes)

lemma ex_roomy_wf [simp]: "well_formed ex_roomy"
  unfolding ex_roomy_def
  by (rule ex_state_wf) (simp add: ex_nodes ex_roomy_node_def)

lemma ex_waiting_wf [simp]: "well_formed ex_waiting"
  unfolding ex_waiting_def by (rule ex_state_wf) (simp add: ex_nodes)

lemma ex_serving_wf [simp]: "well_formed ex_serving"
  unfolding ex_serving_def by (rule ex_state_wf) (simp add: ex_nodes)

lemma ex_completed_wf [simp]: "well_formed ex_completed"
  unfolding ex_completed_def by (rule ex_state_wf) (simp add: ex_nodes)

lemma ex_envs_ok [simp]:
  "env_ok ex_env ex_idle" "env_ok ex_env ex_waiting" "env_ok ex_env ex_serving"
  "env_ok ex_env ex_completed"
  unfolding ex_idle_def ex_waiting_def ex_serving_def ex_completed_def
  by (rule ex_env_ok; simp)+

lemma ex_empty_wf [simp]: "well_formed ex_empty"
  by (simp add: well_formed_def dir_ok_def separate_def ex_empty_def)

lemma ex_empty_ok [simp]: "env_ok ex_env ex_empty"
  by (simp add: env_ok_def ex_env_def ex_empty_def)

lemma ex_ready [simp]: "all_ready ex_idle" "all_ready ex_completed"
  by (simp_all add: all_ready_def ex_idle_def ex_completed_def ready_def ex_done_def ex_node_def)

lemma ex_ops [simp]: "rb_ok (rb_reqs ex_env)" "rb_ok (rb_sers ex_env)"
  by (simp_all add: ex_env_def)

end
