(* ===== verification/Linber_System.thy ===== *)
theory Linber_System
  imports Looked_Up Examples
begin

text \<open>
  The module together with the processes that call it. A call first looks its service up;
  then it runs up to its return or to a wait on a semaphore, where the process is asleep.
  Other calls run between the two halves, and while the process sleeps. The reachable states
  are the closure of these steps from the state init_module leaves. A step that would fault
  has no successor.
\<close>

section \<open>Processes in a call\<close>

text \<open>
  A call has looked up its service, and holds what it found. A client waits for its new request (linber_request_service, phase INIT, blocking) or for
  an older one (phase WAITING); a worker waits in linber_Start_Job for a request.
\<close>

datatype stage = Looked_up ioctl_op linber_service_struct bytes "addr option"
  | In_init request_params addr | In_response request_params addr
  | In_job start_job addr u32

record system =
  kernel :: kstate
  calls :: "pid \<rightharpoonup> stage"

fun stage_after :: "ioctl_op \<Rightarrow> linber_service_struct \<Rightarrow> progress \<Rightarrow> stage option" where
  "stage_after IOCTL_REQUEST_SERVICE obj (Wait_init a) = Some (In_init (op_request obj) a)"
| "stage_after IOCTL_REQUEST_SERVICE obj (Wait_response a) = Some (In_response (op_request obj) a)"
| "stage_after IOCTL_START_JOB_SERVICE obj (Wait_job sn w) = Some (In_job (op_start_job obj) sn w)"
| "stage_after op obj p = None"

definition awake :: "pid \<Rightarrow> kstate \<Rightarrow> system \<Rightarrow> system" where
  "awake pid s y = y\<lparr>kernel := s, calls := (calls y)(pid := None)\<rparr>"


section \<open>Steps\<close>

text \<open>
  A call is made by a process that is in no other call. Memory for a new service is not the
  node a worker still sleeps in. A failed system status leaves mutexes locked and is not a step
  here: nothing runs after it.
\<close>

inductive sys_step :: "system \<Rightarrow> system \<Rightarrow> bool" where
  looks_up: "sys_step y (y\<lparr>kernel := s', calls := (calls y)(pid \<mapsto> Looked_up op obj u ser_node)\<rparr>)"
    if "calls y pid = None" and "has_handler op" and "findService u (kernel y) = Inr (ser_node, s')"
| goes_on: "sys_step y (y\<lparr>kernel := s', calls := (calls y)(current env := stage_after op obj p)\<rparr>)"
    if "calls y (current env) = Some (Looked_up op obj u ser_node)" and "env_ok env (kernel y)"
      and "\<And>pid sj sn w. calls y pid = Some (In_job sj sn w) \<Longrightarrow> sn \<notin> allocated env"
      and "call_fits op obj (kernel y)"
      and "call_found env op u obj ser_node (kernel y) = Inr (p, s')"
| system_status: "sys_step y (y\<lparr>kernel := s'\<rparr>)"
    if "calls y (current env) = None" and "length (Services (kernel y)) < 2 ^ 32"
      and "linber_get_system_status env q (kernel y) = Inr (p, s')" and "\<not> linber_mutex s'"
| init_wakes: "sys_step y (awake pid s' y)"
    if "calls y pid = Some (In_init rp a)" and "down_request signal a (kernel y) = Inr (Some s)"
      and "request_queued rp True a s = Inr (p, s')"
| response_wakes: "sys_step y (awake pid s' y)"
    if "calls y pid = Some (In_response rp a)" and "down_request signal a (kernel y) = Inr (Some s)"
      and "request_completed rp a s = Inr (p, s')"
| job_wakes: "sys_step y (awake (current env) s' y)"
    if "calls y (current env) = Some (In_job sj sn w)"
      and "rb_ok (rb_reqs env)" and "rb_ok (rb_sers env)"
      and "down_service signal sn (kernel y) = Inr (Some s)"
      and "start_job_woken env sj sn w s = Inr (p, s')"
| user_writes: "sys_step y (y\<lparr>kernel := (kernel y)\<lparr>umem := m\<rparr>\<rparr>)"

inductive reachable :: "system \<Rightarrow> bool" where
  loaded: "reachable \<lparr>kernel = s', calls = Map.empty\<rparr>"
    if "fresh_module s" and "device_ok dev" and "init_module dev s = (0, ds, s')"
| stepped: "reachable y'" if "reachable y" and "sys_step y y'"


section \<open>The invariant\<close>

definition handled :: "(pid \<rightharpoonup> stage) \<Rightarrow> bool" where
  "handled cs \<longleftrightarrow> (\<forall>pid op obj u found. cs pid = Some (Looked_up op obj u found) \<longrightarrow> has_handler op)"

lemma handled_update:
  "handled cs \<Longrightarrow> (\<And>op obj u found. x = Some (Looked_up op obj u found) \<Longrightarrow> has_handler op) \<Longrightarrow>
    handled (cs(pid := x))"
  by (auto simp: handled_def)

lemma stage_after_not_looked_up: "stage_after op obj p \<noteq> Some (Looked_up op' obj' u found)"
  by (cases "(op, obj, p)" rule: stage_after.cases) simp_all

definition sys_ok :: "system \<Rightarrow> bool" where
  "sys_ok y \<longleftrightarrow> well_formed (kernel y) \<and> regular (kernel y) \<and> handled (calls y) \<and>
     (\<forall>pid sj sn w n. calls y pid = Some (In_job sj sn w) \<longrightarrow> sers (kernel y) sn = Some n \<longrightarrow>
        w < next_id n)"

lemma sys_okD:
  assumes "sys_ok y"
  shows "well_formed (kernel y)" and "regular (kernel y)" and "handled (calls y)"
    and "calls y pid = Some (In_job sj sn w) \<Longrightarrow> sers (kernel y) sn = Some n \<Longrightarrow> w < next_id n"
  using assms unfolding sys_ok_def by blast+

lemma sys_ok_init:
  assumes "fresh_module s" and "device_ok dev" and "init_module dev s = (0, ds, s')"
  shows "sys_ok \<lparr>kernel = s', calls = Map.empty\<rparr>"
proof -
  have "sers s' = Map.empty"
    using assms by (auto simp: init_module_def fresh_module_def device_ok_def split: if_splits option.splits)
  with init_module_wf [OF assms] show ?thesis
    by (simp add: sys_ok_def regular_def tokens_ok_def all_ready_def handled_def)
qed

text \<open>
  A step keeps the invariant if it keeps the kernel well-formed and tracks it, and the
  processes it puts to sleep hold registered ids.
\<close>

lemma sys_ok_next:
  assumes ok: "sys_ok y" and wf: "well_formed s'" and tr: "tracks new (kernel y) s'" and hd: "handled zs"
    and zz: "\<And>pid sj sn w. zs pid = Some (In_job sj sn w) \<Longrightarrow>
      calls y pid = Some (In_job sj sn w) \<and> sn \<notin> new \<or> (\<forall>n. sers s' sn = Some n \<longrightarrow> w < next_id n)"
  shows "sys_ok (y\<lparr>kernel := s', calls := zs\<rparr>)"
proof -
  have "w < next_id n" if z: "zs pid = Some (In_job sj sn w)" and n: "sers s' sn = Some n" for pid sj sn w n
  proof (cases "calls y pid = Some (In_job sj sn w) \<and> sn \<notin> new")
    case True
    with tr n obtain m where "sers (kernel y) sn = Some m" "next_id m \<le> next_id n"
      unfolding tracks_def ids_kept_def by blast
    with sys_okD(4) [OF ok] True show ?thesis by (meson order_less_le_trans)
  qed (use zz [OF z] n in blast)
  with wf tr hd show ?thesis by (simp add: sys_ok_def tracks_def)
qed

lemma sys_ok_awake:
  assumes "sys_ok y" and "well_formed s'" and "tracks {} (kernel y) s'"
  shows "sys_ok (awake pid s' y)"
  unfolding awake_def
  by (rule sys_ok_next [OF assms handled_update [OF sys_okD(3) [OF assms(1)]]]) (simp_all split: if_splits)

text \<open>Taking a semaphore.\<close>

lemma down_request_ok:
  assumes wf: "well_formed s" and reg: "regular s" and d: "down_request signal a s = Inr (Some s')"
  shows "well_formed s' \<and> tracks {} s s' \<and> reqs s' a \<noteq> None"
proof -
  from d obtain r where r: "reqs s a = Some r"
    and s': "s' = s \<or> s' = s\<lparr>reqs := (reqs s)(a \<mapsto> r\<lparr>Request_sem := Request_sem r - 1\<rparr>)\<rparr>"
    by (auto simp: down_request_def load_req_def modify_req_def split: option.splits if_splits)
  let ?s = "s\<lparr>reqs := (reqs s)(a \<mapsto> r\<lparr>Request_sem := Request_sem r - 1\<rparr>)\<rparr>"
  have "well_formed ?s"
    by (rule wf_touch [OF wf r]) (simp_all add: same_payload_def same_response_def)
  moreover have "token_at ?s = token_at s" using r by (auto simp: token_at_def fun_eq_iff)
  then have "tracks {} s ?s"
    using reg r by (auto simp: tracks_def regular_def tokens_ok_def all_ready_def ready_def ids_kept_def)
  ultimately show ?thesis using s' wf tracks_same [OF reg] r by auto
qed

lemma down_service_ok:
  assumes wf: "well_formed s" and reg: "regular s" and d: "down_service signal sn s = Inr (Some s')"
  shows "well_formed s' \<and> tracks {} s s' \<and>
    (\<exists>n n'. sers s sn = Some n \<and> sers s' sn = Some n' \<and> next_id n' = next_id n)"
proof -
  from d obtain n where n: "sers s sn = Some n"
    and s': "s' = s \<or> s' = s\<lparr>sers := (sers s)(sn \<mapsto> n\<lparr>sem_for_request := sem_for_request n - 1\<rparr>)\<rparr>"
    by (auto simp: down_service_def load_ser_def modify_ser_def split: option.splits if_splits)
  let ?n = "n\<lparr>sem_for_request := sem_for_request n - 1\<rparr>"
  have "well_formed (s\<lparr>sers := (sers s)(sn \<mapsto> ?n)\<rparr>)"
    by (rule wf_update_ser [OF wf n]) (use wf_serD [OF wf n] in simp_all)
  moreover have "tracks {} s (s\<lparr>sers := (sers s)(sn \<mapsto> ?n)\<rparr>)"
    by (rule evolves_tracks [OF evolves_ser [OF wf n, where n' = ?n] reg]) simp_all
  ultimately show ?thesis using s'
  proof (elim disjE)
    assume "s' = s"
    with wf n tracks_same [OF reg refl refl, where new = "{}"] show ?thesis by simp
  next
    assume eq: "s' = s\<lparr>sers := (sers s)(sn \<mapsto> ?n)\<rparr>"
    assume "well_formed (s\<lparr>sers := (sers s)(sn \<mapsto> ?n)\<rparr>)" "tracks {} s (s\<lparr>sers := (sers s)(sn \<mapsto> ?n)\<rparr>)"
    with n show ?thesis
      unfolding eq by (intro conjI exI [of _ n] exI [of _ ?n]) simp_all
  qed
qed

lemma tracks_trans:
  assumes "tracks {} s t" and "tracks {} t u"
  shows "tracks {} s u"
  unfolding tracks_def ids_kept_def
proof (intro conjI allI impI disjI2)
  fix sn n' assume "sers u sn = Some n'"
  with assms(2) obtain m where m: "sers t sn = Some m" "next_id m \<le> next_id n'"
    unfolding tracks_def ids_kept_def by blast
  with assms(1) obtain n where "sers s sn = Some n" "next_id n \<le> next_id m"
    unfolding tracks_def ids_kept_def by blast
  with m(2) show "\<exists>n. sers s sn = Some n \<and> next_id n \<le> next_id n'" by (blast intro: order_trans)
qed (use assms(2) in \<open>simp add: tracks_def\<close>)

lemma sys_ok_goes_on:
  assumes ok: "sys_ok y" and env: "env_ok env (kernel y)"
    and now: "calls y (current env) = Some (Looked_up op obj u ser_node)"
    and new: "\<And>pid sj sn w. calls y pid = Some (In_job sj sn w) \<Longrightarrow> sn \<notin> allocated env"
    and fits: "call_fits op obj (kernel y)" and run: "call_found env op u obj ser_node (kernel y) = Inr (p, s')"
  shows "sys_ok (y\<lparr>kernel := s', calls := (calls y)(current env := stage_after op obj p)\<rparr>)"
proof -
  note wf = sys_okD(1) [OF ok] and reg = sys_okD(2) [OF ok]
  have op: "has_handler op" using sys_okD(3) [OF ok] now unfolding handled_def by blast
  show ?thesis
  proof (rule sys_ok_next [OF ok])
    show "well_formed s'" and "tracks (allocated env) (kernel y) s'"
      using ends_in_Inr [OF call_found_goes_on [OF wf env reg fits op] run] by simp_all
    show "handled ((calls y)(current env := stage_after op obj p))"
      by (rule handled_update [OF sys_okD(3) [OF ok]]) (simp add: stage_after_not_looked_up)
    show "calls y pid = Some (In_job sj sn w) \<and> sn \<notin> allocated env \<or>
        (\<forall>n. sers s' sn = Some n \<longrightarrow> w < next_id n)"
      if z: "((calls y)(current env := stage_after op obj p)) pid = Some (In_job sj sn w)" for pid sj sn w
    proof (cases "pid = current env")
      case True
      with z have "op = IOCTL_START_JOB_SERVICE" and "p = Wait_job sn w"
        by (auto elim: stage_after.elims)
      with call_found_waits [OF wf env op] run show ?thesis by blast
    next
      case False
      with z new show ?thesis by simp
    qed
  qed
qed

lemma sys_ok_step:
  assumes "sys_step y y'" and ok: "sys_ok y"
  shows "sys_ok y'"
  using assms(1)
proof cases
  case (looks_up pid op u ser_node s' obj)
  from looks_up(4) findService_wf [OF sys_okD(1) [OF ok], of u] have "s' = kernel y" by simp
  with sys_okD(1,2) [OF ok] have "well_formed s'" "tracks {} (kernel y) s'" by (simp_all add: tracks_same)
  moreover have "handled ((calls y)(pid \<mapsto> Looked_up op obj u ser_node))"
    by (rule handled_update [OF sys_okD(3) [OF ok]]) (use looks_up(3) in simp)
  ultimately have "sys_ok (y\<lparr>kernel := s', calls := (calls y)(pid \<mapsto> Looked_up op obj u ser_node)\<rparr>)"
    by (rule sys_ok_next [OF ok]) (simp split: if_splits)
  with looks_up(1) show ?thesis by simp
next
  case (goes_on env op obj u ser_node p s')
  then show ?thesis using sys_ok_goes_on [OF ok] by blast
next
  case (system_status env q p s')
  note wf = sys_okD(1) [OF ok]
  from ends_in_Inr [OF linber_get_system_status_ok [OF wf system_status(3)] system_status(4)] system_status(5)
  have "only_umem (kernel y) s'" by (auto simp: left_locked_def only_umem_def)
  then obtain m where "s' = kernel y\<lparr>umem := m\<rparr>" by (auto simp: only_umem_def)
  then have "well_formed s'" "tracks {} (kernel y) s'"
    using wf tracks_same [OF sys_okD(2) [OF ok]] by simp_all
  from sys_ok_next [OF ok this sys_okD(3) [OF ok]] system_status(1) show ?thesis by simp
next
  case (init_wakes pid rp a signal s p s')
  note d = down_request_ok [OF sys_okD(1,2) [OF ok] init_wakes(3)]
  have "well_formed s'" using ends_in_Inr [OF request_queued_ok init_wakes(4)] d by simp
  moreover have "same_objects s s'"
    using ends_in_Inr [OF request_queued_same init_wakes(4)] by (simp add: same_objects_def)
  ultimately show ?thesis
    unfolding init_wakes(1) using d by (intro sys_ok_awake [OF ok]) (auto intro: tracks_same_objects)
next
  case (response_wakes pid rp a signal s p s')
  note d = down_request_ok [OF sys_okD(1,2) [OF ok] response_wakes(3)]
  have "well_formed s'" using ends_in_Inr [OF request_completed_ok response_wakes(4)] d by simp
  moreover have "same_objects s s'"
    using ends_in_Inr [OF request_completed_same response_wakes(4)] by (simp add: same_objects_def)
  ultimately show ?thesis
    unfolding response_wakes(1) using d by (intro sys_ok_awake [OF ok]) (auto intro: tracks_same_objects)
next
  case (job_wakes env sj sn w signal s p s')
  note d = down_service_ok [OF sys_okD(1,2) [OF ok] job_wakes(5)]
  then obtain n n' where n: "sers (kernel y) sn = Some n" "sers s sn = Some n'" "next_id n' = next_id n"
    and wf: "well_formed s" and tr: "tracks {} (kernel y) s" by blast
  have w: "w < next_id n'" using sys_okD(4) [OF ok job_wakes(2) n(1)] n(3) by simp
  have "well_formed s'"
    using ends_in_Inr [OF start_job_woken_ok [OF wf job_wakes(3,4) n(2) w] job_wakes(6)] by simp
  moreover have "tracks {} s s'"
    using ends_in_Inr [OF start_job_woken_evolves [OF wf job_wakes(3) n(2) w] job_wakes(6)] tr
    by (auto intro!: evolves_tracks simp: tracks_def [of "{}" "kernel y" s])
  ultimately show ?thesis
    unfolding job_wakes(1) using tracks_trans [OF tr] by (intro sys_ok_awake [OF ok])
next
  case (user_writes m)
  from sys_okD(1,2) [OF ok] have "well_formed (kernel y\<lparr>umem := m\<rparr>)"
    "tracks {} (kernel y) (kernel y\<lparr>umem := m\<rparr>)" by (simp_all add: tracks_same)
  from sys_ok_next [OF ok this sys_okD(3) [OF ok]] user_writes show ?thesis by simp
qed

lemma reachable_ok: "reachable y \<Longrightarrow> sys_ok y"
  by (induction rule: reachable.induct) (auto intro: sys_ok_init sys_ok_step)

text \<open>A call whose halves follow each other.\<close>

lemma whole_call:
  assumes y: "reachable y" and free: "calls y (current env) = None" and op: "has_handler op"
    and env: "env_ok env (kernel y)"
    and new: "\<And>pid sj sn w. calls y pid = Some (In_job sj sn w) \<Longrightarrow> sn \<notin> allocated env"
    and fits: "call_fits op obj (kernel y)" and run: "call_handler env op u obj (kernel y) = Inr (p, s')"
  shows "reachable (y\<lparr>kernel := s', calls := (calls y)(current env := stage_after op obj p)\<rparr>)"
proof -
  have find: "findService u (kernel y) = Inr (lookup (kernel y) u, kernel y)"
    by (rule findService_wf [OF sys_okD(1) [OF reachable_ok [OF y]]])
  let ?y = "y\<lparr>kernel := kernel y, calls := (calls y)(current env \<mapsto> Looked_up op obj u (lookup (kernel y) u))\<rparr>"
  have found: "call_found env op u obj (lookup (kernel y) u) (kernel y) = Inr (p, s')"
    using run find by (simp add: call_handler_halves [OF op])
  have "reachable ?y" by (rule stepped [OF y looks_up [OF free op find]])
  moreover have "sys_step ?y (?y\<lparr>kernel := s', calls := (calls ?y)(current env := stage_after op obj p)\<rparr>)"
    by (rule goes_on) (use env fits found new in \<open>auto split: if_splits\<close>)
  ultimately have "reachable (?y\<lparr>kernel := s', calls := (calls ?y)(current env := stage_after op obj p)\<rparr>)"
    by (rule stepped)
  then show ?thesis by simp
qed

end
