(* ===== verification/System_Props.thy ===== *)
theory System_Props
  imports Linber_System
begin

text \<open>
  What holds in every reachable state of the module and its processes, and how the waiting
  requests of a service are used up by the workers that wake.
\<close>

section \<open>A run\<close>

text \<open>
  The module is loaded, process 5 registers a service, registers as its worker and waits
  for a job.
\<close>

definition ex_device :: device_env where
  "ex_device = \<lparr>register_chrdev = 240, class_create = None, device_create = None\<rparr>"

definition ex_call :: linber_service_struct where
  "ex_call = \<lparr>service_uri_ptr = 102, service_uri_len = 1,
     op_registration = \<lparr>reg_Max_Working = 1, ptr_service_token = 100, reg_exec_time_ns = 50,
       service_period_ns = 1000, service_budget_ns = 100\<rparr>,
     op_register_worker = \<lparr>rw_service_token = 43, ptr_worker_id = 103\<rparr>, op_request = ex_fetch,
     op_start_job = \<lparr>sj_worker_id = 0, sj_service_token = 43, ptr_request_len = 103,
       ptr_request_shm_mode = 104, sj_data = 101\<rparr>,
     op_end_job = ex_answer, ds_service_token = 43\<rparr>"

definition ex_new_node :: ServiceNode where
  "ex_new_node = new_service ex_env [115] (op_registration ex_call) ex_node"


text \<open>Later on the allocator has no memory for a service.\<close>

definition ex_full :: env where
  "ex_full = ex_env\<lparr>kmalloc_service := None\<rparr>"

text \<open>The state with the service n at address 8.\<close>

definition ex_at_8 :: "ServiceNode \<Rightarrow> (uaddr \<rightharpoonup> uval) \<Rightarrow> (pid \<rightharpoonup> sched_attr) \<Rightarrow> kstate" where
  "ex_at_8 n um sc = ex_empty\<lparr>
     Services_rbtree := Node Leaf (\<lparr>service_uri = [115], Service = 8\<rparr>, True) Leaf,
     Services := [8], Services_count := 1, Max_Working := 1, sers := [8 \<mapsto> n], umem := um, sched := sc\<rparr>"

lemma ex_at_8_simps [simp]:
  "sers (ex_at_8 n um sc) = [8 \<mapsto> n]" "reqs (ex_at_8 n um sc) = Map.empty" "bufs (ex_at_8 n um sc) = Map.empty"
  "umem (ex_at_8 n um sc) = um"
  "Services_rbtree (ex_at_8 n um sc) = Node Leaf (\<lparr>service_uri = [115], Service = 8\<rparr>, True) Leaf"
  "(ex_at_8 n um sc)\<lparr>sers := [8 \<mapsto> m]\<rparr> = ex_at_8 m um sc"
  "(ex_at_8 n um sc)\<lparr>umem := um'\<rparr> = ex_at_8 n um' sc"
  by (simp_all add: ex_at_8_def ex_empty_def)

lemma ex_register:
  "call_handler ex_env IOCTL_REGISTER_SERVICE [115] ex_call ex_empty =
    Inr (Done LINBER_SERVICE_REGISTRATION_SUCCESS, ex_at_8 ex_new_node (ex_umem(100 \<mapsto> ULong 43)) Map.empty)"
proof -
  have look: "directory (Services_rbtree ex_empty) (cstr [115]) = None" by (simp add: ex_empty_def)
  have "created ex_env [115] (op_registration ex_call) 8 ex_node ex_empty = ex_at_8 ex_new_node ex_umem Map.empty"
    by (simp add: created_def ex_at_8_def ex_empty_def ex_new_node_def ex_env_def ex_call_def
        Insert_ServiceNode_def plain_ops_def)
  with create_service_eq [OF ex_empty_wf ex_empty_ok look, of "op_registration ex_call"]
  have "create_service ex_env [115] (op_registration ex_call) ex_empty =
      Inr (Some 8, ex_at_8 ex_new_node ex_umem Map.empty)"
    by (simp add: ex_env_def)
  moreover have "directory (Services_rbtree ex_empty) = Map.empty" by (simp add: ex_empty_def)
  moreover have "put_user (ULong 43) 100 (ex_at_8 ex_new_node ex_umem Map.empty) =
      Some (ex_at_8 ex_new_node (ex_umem(100 \<mapsto> ULong 43)) Map.empty)"
    by (simp add: put_user_def ex_umem_def)
  moreover have "ser_token ex_new_node = 43" "ptr_service_token (op_registration ex_call) = 100"
    by (simp_all add: ex_new_node_def ex_call_def ex_env_def)
  ultimately show ?thesis
    by (simp add: call_handler_def linber_register_service_def linber_register_service_found_def findService_wf load_ser_def
        CHECK_MEMORY_ERROR_def)
qed



text \<open>Process 5 has registered its service.\<close>

abbreviation ex_registered :: kstate where
  "ex_registered \<equiv> ex_at_8 ex_new_node (ex_umem(100 \<mapsto> ULong 43)) Map.empty"

lemma ex_registers: "reachable \<lparr>kernel = ex_registered, calls = Map.empty\<rparr>"
proof -
  have env: "current ex_env = 5" "allocated ex_env = {8}" by (simp_all add: ex_env_def allocated_def)
  have "reachable \<lparr>kernel = ex_empty, calls = Map.empty\<rparr>"
    by (rule loaded [of ex_empty ex_device])
      (simp_all add: fresh_module_def device_ok_def init_module_def ex_empty_def ex_device_def)
  from whole_call [OF this, of ex_env IOCTL_REGISTER_SERVICE ex_call "[115]" _ ex_registered] ex_register
  show ?thesis by (simp add: call_fits_def has_handler_def)
qed



section \<open>The reachable states\<close>




section \<open>A service that goes while it is looked up\<close>

text \<open>
  C37: The service a call has found is not kept alive for it. Between the lookup and the
  rest of the call the service can be destroyed: the call then uses freed memory, exactly
  when its service is gone. And two servers can both find that a URI is free: the second
  one to go on corrupts the list of services.
\<close>

theorem stale_lookup_faults:
  assumes "reachable y" and "calls y (current env) = Some (Looked_up op obj u ser_node)"
    and "env_ok env (kernel y)"
  shows "(call_found env op u obj ser_node (kernel y) = Inl Use_after_free \<longleftrightarrow>
      op \<noteq> IOCTL_REGISTER_SERVICE \<and> (\<exists>sn. ser_node = Some sn \<and> sers (kernel y) sn = None)) \<and>
    (op = IOCTL_REGISTER_SERVICE \<and> ser_node = None \<and> lookup (kernel y) u \<noteq> None \<and> kmalloc_service env \<noteq> None \<longrightarrow>
      call_found env op u obj ser_node (kernel y) = Inl List_corruption)"
proof -
  let ?s = "kernel y"
  note ok = reachable_ok [OF assms(1)]
  note wf = sys_okD(1) [OF ok]
  have op: "has_handler op" using sys_okD(3) [OF ok] assms(2) unfolding handled_def by blast
  have rdy: "all_ready ?s" using sys_okD(2) [OF ok] by (simp add: regular_def)
  have safe: "call_handler env op v obj ?s \<noteq> Inl Use_after_free" for v
    using call_handler_ok [OF wf assms(3) rdy, of op v obj] by (auto simp: call_faults_def)
  show ?thesis
  proof (cases "op = IOCTL_REGISTER_SERVICE")
    case True
    with safe found_none_register [OF wf assms(3), of u obj] show ?thesis
      by (cases ser_node) (auto simp: found_taken split: option.split)
  next
    case False
    show ?thesis
    proof (cases ser_node)
      case None
      with found_none [OF False, of env u obj ?s] False show ?thesis by auto
    next
      case (Some sn)
      with False found_gone [OF _ False op] found_live [OF wf _ False op] safe show ?thesis
        by (cases "sers ?s sn") auto
    qed
  qed
qed

text \<open>Process 6 has looked up the service that process 5 then destroys.\<close>

definition ex_other :: env where
  "ex_other = ex_full\<lparr>current := 6\<rparr>"

lemma ex_destroys:
  assumes "well_formed ex_registered"
  shows "\<exists>s. call_handler ex_full IOCTL_DESTROY_SERVICE [115] ex_call ex_registered = Inr (Done 0, s) \<and>
    sers s = Map.empty \<and> reqs s = Map.empty \<and> bufs s = Map.empty"
proof -
  have n: "sers ex_registered 8 = Some ex_new_node" by simp
  have node: "count_registered ex_new_node = 0" "idle_requests ex_new_node = []"
    "Service_check_Worker ex_new_node 43 0"
    by (simp_all add: ex_new_node_def new_service_def fill_service_def idle_requests_def waiting_def
        Service_check_Worker_def ex_call_def ex_env_def)
  have "rb_ok (rb_reqs ex_full)" by (simp add: ex_full_def ex_env_def)
  from destroy_service_eq [OF this n wf_serD [OF assms n] wf_Services [OF assms n]] node
  have "destroy_service ex_full 8 ex_registered =
      Inr (unlinked ex_full 8 ex_new_node (ex_registered\<lparr>reqs := abort_all Map.empty []\<rparr>))" by simp
  then show ?thesis
    using node findService_wf [OF assms, of "[115]"]
    by (simp add: call_handler_def handler_defs found_defs load_ser_def ex_call_def unlinked_def abort_all_def)
qed

theorem stale_lookup_faults_witness:
  "\<exists>y. reachable y \<and> call_found ex_other IOCTL_REQUEST_SERVICE [115] ex_call (Some 8) (kernel y) = Inl Use_after_free"
proof -
  note wf = sys_okD(1) [OF reachable_ok [OF ex_registers], simplified]
  let ?c = "[6 \<mapsto> Looked_up IOCTL_REQUEST_SERVICE ex_call [115] (Some 8)]"
  have find: "findService [115] (kernel \<lparr>kernel = ex_registered, calls = Map.empty\<rparr>) = Inr (Some 8, ex_registered)"
    by (simp add: findService_wf [OF wf])
  have "reachable \<lparr>kernel = ex_registered, calls = ?c\<rparr>"
    using stepped [OF ex_registers looks_up [OF _ _ find, of 6 IOCTL_REQUEST_SERVICE ex_call]]
    by (simp add: has_handler_def)
  moreover obtain s where s: "call_handler ex_full IOCTL_DESTROY_SERVICE [115] ex_call ex_registered = Inr (Done 0, s)"
    "sers s = Map.empty" "reqs s = Map.empty" "bufs s = Map.empty" using ex_destroys [OF wf] by blast
  moreover have "current ex_full = 5" "allocated ex_full = {}" "env_ok ex_full ex_registered"
    by (simp_all add: env_ok_def ex_full_def ex_env_def allocated_def)
  ultimately have y: "reachable \<lparr>kernel = s, calls = ?c\<rparr>"
    using whole_call [of "\<lparr>kernel = ex_registered, calls = ?c\<rparr>" ex_full IOCTL_DESTROY_SERVICE ex_call "[115]" _ s]
    by (simp add: call_fits_def has_handler_def fun_upd_twist [of 6 5] fun_upd_idem)
  have "env_ok ex_other s" using s by (simp add: env_ok_def ex_other_def ex_full_def ex_env_def)
  with stale_lookup_faults [OF y, of ex_other IOCTL_REQUEST_SERVICE ex_call "[115]" "Some 8"] y s(2) show ?thesis
    by (intro exI [of _ "\<lparr>kernel = s, calls = ?c\<rparr>"]) (simp add: ex_other_def)
qed


section \<open>Workers that wake one after another\<close>

fun wake_workers :: "addr \<Rightarrow> (env \<times> nat) list \<Rightarrow> kstate \<Rightarrow> fault + addr option list \<times> kstate" where
  "wake_workers sn [] s = Inr ([], s)"
| "wake_workers sn ((env, i) # ws) s =
     bnd (worker_woken env sn i s) (\<lambda>(r, s).
     bnd (wake_workers sn ws s) (\<lambda>(rs, s). Inr (r # rs, s)))"

text \<open>
  C40: A waiting request is served after as many workers have woken as there are requests
  before it, and itself: k workers of a service that is not being destroyed take the first
  k waiting requests, in the order of the tree, and leave the rest waiting.
\<close>

theorem waiting_requests_served_in_turn:
  assumes "well_formed s" and "sers s sn = Some n" and "\<not> destroy_me n"
    and "\<forall>(env, i) \<in> set ws. rb_ok (rb_reqs env) \<and> i < unat (next_id n)"
    and "length ws \<le> length (waiting (Requests_rbtree n))"
  shows "\<exists>s' n'. wake_workers sn ws s =
      Inr (map (\<lambda>(d, a). Some a) (take (length ws) (waiting (Requests_rbtree n))), s') \<and>
    well_formed s' \<and> sers s' sn = Some n' \<and>
    waiting (Requests_rbtree n') = drop (length ws) (waiting (Requests_rbtree n))"
  using assms
proof (induction ws arbitrary: s n)
  case (Cons x ws)
  obtain env i where x: "x = (env, i)" by (cases x)
  with Cons.prems(4) have env: "rb_ok (rb_reqs env)" and i: "i < unat (next_id n)" by simp_all
  from Cons.prems(5) obtain d a rest where w: "waiting (Requests_rbtree n) = (d, a) # rest"
    by (cases "waiting (Requests_rbtree n)") auto
  note wf = Cons.prems(1) and n = Cons.prems(2)
  from worker_woken_alive(2) [OF env n wf_serD [OF wf n] wf_Services [OF wf n] Cons.prems(3) w]
  obtain t where t: "worker_woken env sn i s = Inr (Some a, s\<lparr>sers := (sers s)(sn \<mapsto> taken i a t n)\<rparr>)"
    "waiting t = rest" "no_empty_queue t" by blast
  let ?n = "taken i a t n" and ?s = "s\<lparr>sers := (sers s)(sn \<mapsto> taken i a t n)\<rparr>"
  have m: "sers ?s sn = Some ?n" "\<not> destroy_me ?n" "next_id ?n = next_id n" "Requests_rbtree ?n = t"
    using Cons.prems(3) by (simp_all add: taken_def with_serving_def)
  have "\<forall>(env, i) \<in> set ws. rb_ok (rb_reqs env) \<and> i < unat (next_id ?n)"
    using Cons.prems(4) m(3) by simp
  moreover have "length ws \<le> length (waiting (Requests_rbtree ?n))"
    using Cons.prems(5) w t(2) m(4) by simp
  ultimately obtain s' n' where "wake_workers sn ws ?s =
      Inr (map (\<lambda>(d, a). Some a) (take (length ws) rest), s')" "well_formed s'" "sers s' sn = Some n'"
    "waiting (Requests_rbtree n') = drop (length ws) rest"
    using Cons.IH [OF taken_wf [OF wf n i w t(2,3)] m(1,2)] m(4) t(2) by auto
  with w x t(1) show ?case by simp
qed simp

theorem waiting_requests_served_in_turn_witness:
  "\<exists>s'. wake_workers 7 [(ex_env, 0)] ex_waiting = Inr ([Some 21], s') \<and> well_formed s'"
proof -
  let ?n = "ex_node\<lparr>Requests_rbtree := Node Leaf (\<lparr>unique_id = 100, RequestHead = [21]\<rparr>, True) Leaf,
    Request_count := 1\<rparr>"
  have n: "sers ex_waiting 7 = Some ?n" by (simp add: ex_waiting_def)
  from waiting_requests_served_in_turn [OF ex_waiting_wf n, of "[(ex_env, 0)]"]
  show ?thesis by (auto simp: ex_node_def waiting_def)
qed

end
