(* ===== verification/Result_Codes.thy ===== *)
theory Result_Codes
  imports Looked_Up
begin

text \<open>
  What values the calls of the module return. A request carries the result its client will
  get; the results of all requests are of three kinds, which every segment of a call keeps,
  and the values a call can return are those of its operation.
\<close>

section \<open>The results of requests\<close>

definition request_results :: "int set" where
  "request_results = {LINBER_REQUEST_SUCCESS, LINBER_ABORT_REQUEST, LINBER_REQUEST_FAILED}"

definition typed :: "kstate \<Rightarrow> bool" where
  "typed s \<longleftrightarrow> (\<forall>a r. reqs s a = Some r \<longrightarrow> result_cmd r \<in> request_results)"

named_theorems typing \<open>rules that push typed through the steps of a handler\<close>

lemma typed_simps [simp]:
  "typed (s\<lparr>Services_rbtree := t\<rparr>) = typed s" "typed (s\<lparr>Services := l\<rparr>) = typed s"
  "typed (s\<lparr>Services_count := c\<rparr>) = typed s" "typed (s\<lparr>lin_Request_count := c\<rparr>) = typed s"
  "typed (s\<lparr>Max_Working := c\<rparr>) = typed s" "typed (s\<lparr>linber_mutex := b\<rparr>) = typed s"
  "typed (s\<lparr>sers := m\<rparr>) = typed s" "typed (s\<lparr>bufs := f\<rparr>) = typed s" "typed (s\<lparr>umem := u\<rparr>) = typed s"
  "typed (s\<lparr>sched := sc\<rparr>) = typed s"
  by (simp_all add: typed_def)

lemma typed_update:
  "typed s \<Longrightarrow> result_cmd r \<in> request_results \<Longrightarrow> typed (s\<lparr>reqs := (reqs s)(a \<mapsto> r)\<rparr>)"
  "typed s \<Longrightarrow> typed (s\<lparr>reqs := (reqs s)(a := None)\<rparr>)"
  by (simp_all add: typed_def)

lemma typedD: "typed s \<Longrightarrow> reqs s a = Some r \<Longrightarrow> result_cmd r \<in> request_results"
  unfolding typed_def by blast

lemma results [simp]:
  "LINBER_REQUEST_SUCCESS \<in> request_results" "LINBER_ABORT_REQUEST \<in> request_results"
  "LINBER_REQUEST_FAILED \<in> request_results"
  by (simp_all add: request_results_def)

section \<open>The steps\<close>

lemma ends_any: "(\<And>x. Q x) \<Longrightarrow> ends_in m UNIV Q"
  by (simp add: ends_in_def split: sum.split)

text \<open>Searches return no state.\<close>

lemmas typing_search [typing] = ends_any [where 'a = "addr option"] ends_any [where 'a = "nat option"]

lemma typing_steps [typing]:
  "(\<And>n. Q n) \<Longrightarrow> ends_in (load_ser a s) UNIV Q"
  "typed s \<Longrightarrow> (\<And>r. result_cmd r \<in> request_results \<Longrightarrow> R r) \<Longrightarrow> ends_in (load_req a s) UNIV R"
  "(\<And>b. B b) \<Longrightarrow> ends_in (load_buf a s) UNIV B"
  "typed s \<Longrightarrow> (\<And>s'. typed s' \<Longrightarrow> P s') \<Longrightarrow> ends_in (modify_ser a f s) UNIV P"
  "typed s \<Longrightarrow> (\<And>s'. typed s' \<Longrightarrow> P s') \<Longrightarrow> ends_in (mutex_lock_ser a s) UNIV P"
  "typed s \<Longrightarrow> (\<And>s'. typed s' \<Longrightarrow> P s') \<Longrightarrow> ends_in (mutex_unlock_ser a s) UNIV P"
  "typed s \<Longrightarrow> (\<And>s'. typed s' \<Longrightarrow> P s') \<Longrightarrow> ends_in (mutex_lock_linber s) UNIV P"
  "typed s \<Longrightarrow> (\<And>s'. typed s' \<Longrightarrow> P s') \<Longrightarrow> ends_in (up_service a s) UNIV P"
  "typed s \<Longrightarrow> (\<And>s'. typed s' \<Longrightarrow> P s') \<Longrightarrow> ends_in (set_serving a i x s) UNIV P"
  "typed s \<Longrightarrow> (\<And>s'. typed s' \<Longrightarrow> P s') \<Longrightarrow> ends_in (kfree_buf a s) UNIV P"
  "typed s \<Longrightarrow> (\<And>s'. typed s' \<Longrightarrow> P s') \<Longrightarrow> ends_in (kfree_req a s) UNIV P"
  by (auto simp: steps typed_update dest: typedD split: option.split)

lemma typing_modify_req [typing]:
  assumes "typed s" and "\<And>r. result_cmd r \<in> request_results \<Longrightarrow> result_cmd (f r) \<in> request_results"
    and "\<And>s'. typed s' \<Longrightarrow> P s'"
  shows "ends_in (modify_req a f s) UNIV P"
  using assms by (auto simp: steps intro!: assms(3) typed_update dest: typedD split: option.split)

lemma typing_up_request [typing]:
  "typed s \<Longrightarrow> (\<And>s'. typed s' \<Longrightarrow> P s') \<Longrightarrow> ends_in (up_request a s) UNIV P"
  unfolding up_request_def by (rule typing_modify_req) simp_all

lemma typing_destroy_request [typing]:
  "typed s \<Longrightarrow> (\<And>s'. typed s' \<Longrightarrow> P s') \<Longrightarrow> ends_in (destroy_request a s) UNIV P"
  by (auto simp: destroy_request_def intro!: typing)

lemma typed_unlock_linber [simp]: "typed (mutex_unlock_linber s) = typed s"
  by (simp add: mutex_unlock_linber_def)

lemma typed_put_user: "put_user v p s = Some s' \<Longrightarrow> typed s' = typed s"
  by (auto simp: put_user_def split: if_splits)

lemma typed_copy_to_user: "copy_to_user p d s = Some s' \<Longrightarrow> typed s' = typed s"
  by (auto simp: copy_to_user_def split: option.splits uval.splits if_splits)

lemma typed_dispatch [simp]: "typed (dispatch_policy env n d s) = typed s" "typed (Dispatch_as_BestEffort env s) = typed s"
  by (auto simp: dispatch_policy_def Dispatch_as_BestEffort_def Dispatch_as_RealTime_def apply_sched_def Let_def)

lemma typing_get_Completed [typing]:
  "typed s \<Longrightarrow> (\<And>x s'. typed s' \<Longrightarrow> P (x, s')) \<Longrightarrow> ends_in (get_Completed_Request sn tok s) UNIV P"
  by (auto simp: get_Completed_Request_def intro!: typing split: option.split)

lemma typing_find [typing]:
  "typed s \<Longrightarrow> (\<And>x s'. typed s' \<Longrightarrow> P (x, s')) \<Longrightarrow> ends_in (find_Waiting_or_Completed_Request sn d tok s) UNIV P"
  by (auto simp: find_Waiting_or_Completed_Request_def intro!: typing split: option.split)

lemma typing_get_request [typing]:
  "typed s \<Longrightarrow> (\<And>x s'. typed s' \<Longrightarrow> P (x, s')) \<Longrightarrow> ends_in (get_request env sn s) UNIV P"
  by (auto simp: get_request_def Let_def intro!: typing split: option.split prod.split)

lemma typing_enqueue [typing]:
  "typed s \<Longrightarrow> (\<And>x s'. typed s' \<Longrightarrow> P (x, s')) \<Longrightarrow>
    ends_in (enqueue_request_for_service env sn b len shm key d s) UNIV P"
  by (auto simp: enqueue_request_for_service_def create_Request_def fill_request_def Let_def
      intro!: typing typed_update split: option.split prod.split)

lemma typing_destroy_waiting:
  "typed s \<Longrightarrow> (\<And>s'. typed s' \<Longrightarrow> P s') \<Longrightarrow> ends_in (destroy_waiting k env sn s) UNIV P"
proof (induction k arbitrary: s)
  case (Suc k)
  show ?case
    by (auto simp: Let_def Suc.prems intro!: typing Suc.IH split: option.split prod.split)
qed simp

lemma typing_destroy_completed:
  "typed s \<Longrightarrow> (\<And>s'. typed s' \<Longrightarrow> P s') \<Longrightarrow> ends_in (destroy_completed sn as s) UNIV P"
proof (induction as arbitrary: s)
  case (Cons a as)
  show ?case by (auto simp: Cons.prems intro!: typing Cons.IH)
qed simp

lemma typing_clean_service [typing]:
  "typed s \<Longrightarrow> (\<And>s'. typed s' \<Longrightarrow> P s') \<Longrightarrow> ends_in (clean_service env sn s) UNIV P"
  by (auto simp: clean_service_def Let_def intro!: typing)

lemma typing_destroy_service [typing]:
  "typed s \<Longrightarrow> (\<And>s'. typed s' \<Longrightarrow> P s') \<Longrightarrow> ends_in (destroy_service env sn s) UNIV P"
  by (auto simp: destroy_service_def Let_def simp del: destroy_waiting.simps
      intro!: typing typing_destroy_waiting typing_destroy_completed)

lemma typing_create_service [typing]:
  "typed s \<Longrightarrow> (\<And>x s'. typed s' \<Longrightarrow> P (x, s')) \<Longrightarrow> ends_in (create_service env u reg s) UNIV P"
  by (auto simp: create_service_def Let_def intro!: typing split: option.split prod.split)

lemma typing_decrease [typing]:
  "typed s \<Longrightarrow> (\<And>s'. typed s' \<Longrightarrow> P s') \<Longrightarrow> ends_in (decrease_workers sn s) UNIV P"
  by (auto simp: decrease_workers_def intro!: typing)

lemma typing_wait_for_request [typing]:
  "typed s \<Longrightarrow> (\<And>x s'. typed s' \<Longrightarrow> P (x, s')) \<Longrightarrow> ends_in (worker_wait_for_request env sn w s) UNIV P"
  by (auto simp: worker_wait_for_request_def intro!: typing split: option.split)

lemma typing_check_alive [typing]:
  "typed s \<Longrightarrow> (\<And>x s'. typed s' \<Longrightarrow> P (x, s')) \<Longrightarrow> ends_in (Service_check_alive env sn s) UNIV P"
  by (auto simp: Service_check_alive_def intro!: typing)

lemma typing_woken [typing]:
  "typed s \<Longrightarrow> (\<And>x s'. typed s' \<Longrightarrow> P (x, s')) \<Longrightarrow> ends_in (worker_woken env sn i s) UNIV P"
  by (auto simp: worker_woken_def intro!: typing split: option.split)

lemma typing_move [typing]:
  "typed s \<Longrightarrow> (\<And>s'. typed s' \<Longrightarrow> P s') \<Longrightarrow> ends_in (move_from_worker_to_completed env sn w s) UNIV P"
  by (auto simp: move_from_worker_to_completed_def Let_def intro!: typing split: option.split)


section \<open>The codes\<close>

text \<open>What a call of each operation can return, to a caller whose memory is accessible or not.\<close>

definition return_codes :: "ioctl_op \<Rightarrow> int set" where
  "return_codes op = (case op of
     IOCTL_REGISTER_SERVICE \<Rightarrow> {LINBER_SERVICE_REGISTRATION_SUCCESS, LINBER_SERVICE_REGISTRATION_ALREADY_EXISTS,
       LINBER_SERVICE_REGISTRATION_FAIL, LINBER_USER_MEMORY_ERROR}
   | IOCTL_REQUEST_SERVICE \<Rightarrow> request_results \<union> {LINBER_REQUEST_WAITING, LINBER_SERVICE_NOT_EXISTS,
       LINBER_PAYLOAD_SIZE_ERROR, LINBER_KERNEL_MEMORY_ERROR, LINBER_USER_MEMORY_ERROR}
   | IOCTL_REQUEST_SERVICE_GET_RESPONSE \<Rightarrow> request_results \<union> {LINBER_SERVICE_NOT_EXISTS, LINBER_USER_MEMORY_ERROR}
   | IOCTL_REGISTER_SERVICE_WORKER \<Rightarrow> {0, - 1, LINBER_USER_MEMORY_ERROR}
   | IOCTL_START_JOB_SERVICE \<Rightarrow> {0, LINBER_SERVICE_SKIP_JOB, LINBER_KILL_WORKER, LINBER_SERVICE_NOT_EXISTS,
       LINBER_USER_MEMORY_ERROR}
   | IOCTL_START_JOB_GET_REQUEST_SERVICE \<Rightarrow> {0, LINBER_SERVICE_SKIP_JOB, LINBER_KILL_WORKER,
       LINBER_SERVICE_NOT_EXISTS, LINBER_USER_MEMORY_ERROR}
   | IOCTL_END_JOB_SERVICE \<Rightarrow> {0, LINBER_SERVICE_SKIP_JOB, LINBER_KILL_WORKER, LINBER_SERVICE_NOT_EXISTS,
       LINBER_PAYLOAD_SIZE_ERROR, LINBER_KERNEL_MEMORY_ERROR, LINBER_USER_MEMORY_ERROR}
   | IOCTL_DESTROY_SERVICE \<Rightarrow> {0, - 1}
   | _ \<Rightarrow> {LINBER_IOCTL_NOT_IMPLEMENTED})"

abbreviation returns :: "int set \<Rightarrow> outcome \<Rightarrow> bool" where
  "returns R m \<equiv> ends_in m UNIV (\<lambda>(p, s'). typed s' \<and> (\<forall>r. p = Done r \<longrightarrow> r \<in> R))"

lemmas checks = CHECK_MEMORY_ERROR_def CHECK_KMALLOC_ERROR_def

lemma completed_returns:
  "typed s \<Longrightarrow> returns (request_results \<union> {LINBER_USER_MEMORY_ERROR}) (request_completed rp a s)"
  by (auto simp: request_completed_def checks Let_def typed_put_user intro!: typing split: option.split)

lemma queued_returns:
  "typed s \<Longrightarrow> returns (request_results \<union> {LINBER_USER_MEMORY_ERROR}) (request_queued rp True a s)"
  by (auto simp: request_queued_def checks typed_put_user intro!: typing ends_in_weaken [OF completed_returns]
      split: option.split)

lemma job_woken_returns:
  "typed s \<Longrightarrow> returns {0, LINBER_SERVICE_SKIP_JOB, LINBER_USER_MEMORY_ERROR} (start_job_woken env sj sn w s)"
  by (auto simp: start_job_woken_def checks Let_def typed_put_user intro!: typing split: option.split)

lemma found_returns:
  assumes "typed s" and "has_handler op"
  shows "returns (return_codes op) (call_found env op u obj ser_node s)"
  using assms(1)
proof (cases op)
  case IOCTL_REGISTER_SERVICE
  then show ?thesis using assms(1)
    by (auto simp: call_found_def found_defs checks return_codes_def typed_put_user intro!: typing split: option.split)
next
  case IOCTL_REQUEST_SERVICE
  have "returns (return_codes IOCTL_REQUEST_SERVICE) (enqueue_and_wait env sn rp b key t)" if "typed t" for sn rp b key t
    using that by (auto simp: enqueue_and_wait_def return_codes_def [of IOCTL_REQUEST_SERVICE] request_queued_def
        checks typed_put_user intro!: typing split: option.split)
  then show ?thesis using assms(1) IOCTL_REQUEST_SERVICE
    by (auto simp: call_found_def found_defs checks Let_def return_codes_def intro!: typing split: option.split)
next
  case IOCTL_REQUEST_SERVICE_GET_RESPONSE
  then show ?thesis using assms(1)
    by (auto simp: call_found_def found_defs checks Let_def return_codes_def typed_copy_to_user intro!: typing
        split: option.split list_cursor.split)
next
  case IOCTL_REGISTER_SERVICE_WORKER
  then show ?thesis using assms(1)
    by (auto simp: call_found_def found_defs checks Let_def return_codes_def typed_put_user intro!: typing
        split: option.split)
next
  case IOCTL_START_JOB_SERVICE
  then show ?thesis using assms(1)
    by (auto simp: call_found_def found_defs return_codes_def intro!: typing split: option.split)
next
  case IOCTL_START_JOB_GET_REQUEST_SERVICE
  then show ?thesis using assms(1)
    by (auto simp: call_found_def found_defs checks return_codes_def typed_copy_to_user intro!: typing
        split: option.split)
next
  case IOCTL_END_JOB_SERVICE
  then show ?thesis using assms(1)
    by (auto simp: call_found_def found_defs worker_get_request_def checks Let_def return_codes_def intro!: typing
        split: option.split)
next
  case IOCTL_DESTROY_SERVICE
  then show ?thesis using assms(1)
    by (auto simp: call_found_def found_defs return_codes_def intro!: typing split: option.split)
qed (use assms in \<open>simp_all add: has_handler_def\<close>)

end
