(* ===== verification/Result_Props.thy ===== *)
theory Result_Props
  imports System_Props Result_Codes
begin








end
