(* ===== verification/Job_Props.thy ===== *)
theory Job_Props
  imports Examples
begin

text \<open>
  The way of a response from the worker to the client: what linber_End_Job stores is what
  linber_request_service_get_response delivers, who may fetch it, and what happens to
  payloads that are too long.
\<close>

section \<open>From the worker's slot to the client\<close>

lemma find_token_snoc:
  assumes "\<And>c. c \<in> set cs \<Longrightarrow> \<exists>t. tok c = Some t \<and> t \<noteq> wanted" and "tok a = Some wanted"
  shows "find_token tok wanted (cs @ [a]) = Inr (Some a)"
  using assms by (induction cs) (fastforce split: option.split)+

text \<open>The worker of slot w is the calling task and serves request a, which is r.\<close>

definition serves :: "env \<Rightarrow> ServiceNode \<Rightarrow> u64 \<Rightarrow> u32 \<Rightarrow> addr \<Rightarrow> bool" where
  "serves env n tok w a \<longleftrightarrow> Service_check_Worker n tok w \<and> w < next_id n \<and>
     task (worker_slots n ! unat w) = Some (current env) \<and> serving (worker_slots n ! unat w) = Some a"

lemma serves_slot:
  assumes "well_formed s" and "sers s sn = Some n" and "serves env n tok w a"
  shows "get_worker_by_id env n w = Inr (Some (unat w))" and "unat w < length (worker_slots n)"
    and "unat w < unat (next_id n)" and "\<exists>r. reqs s a = Some r" and "a \<notin> set (Completed_RequestsHead n)"
proof -
  note ok = wf_serD [OF assms(1,2)]
  from assms(3) have w: "w < next_id n" "task (worker_slots n ! unat w) = Some (current env)"
    "serving (worker_slots n ! unat w) = Some a" by (simp_all add: serves_def)
  show "get_worker_by_id env n w = Inr (Some (unat w))"
    using get_worker_by_id_eq [OF ser_okD(5) [OF ok] w(1)] w(2) by simp
  show i: "unat w < length (worker_slots n)" and "unat w < unat (next_id n)"
    using slot_in_range [OF ser_okD(5) [OF ok] w(1)] .
  show "\<exists>r. reqs s a = Some r"
    using ser_ok_owned [OF ok serving_owned(1) [OF i w(3)]] by blast
  show "a \<notin> set (Completed_RequestsHead n)" by (rule serving_not_completed [OF ok i w(3)])
qed

lemma handed_over_simps [simp]:
  "sers (handed_over i a r bf sn n s) = (sers s)(sn \<mapsto> moved i a n)"
  "reqs (handed_over i a r bf sn n s) = (reqs s)(a \<mapsto> woken r)"
  "bufs (handed_over i a r bf sn n s) = bf"
  "umem (handed_over i a r bf sn n s) = umem s"
  "Services_rbtree (handed_over i a r bf sn n s) = Services_rbtree s"
  by (simp_all add: handed_over_def)

lemma moved_simps [simp]:
  "Completed_RequestsHead (moved i a n) = Completed_RequestsHead n @ [a]"
  "destroy_me (moved i a n) = destroy_me n"
  by (simp_all add: moved_def)

text \<open>No completed request of the service has this token.\<close>

definition token_free :: "kstate \<Rightarrow> ServiceNode \<Rightarrow> u64 \<Rightarrow> bool" where
  "token_free s n tok \<longleftrightarrow> (\<forall>c \<in> set (Completed_RequestsHead n). token_at s c \<noteq> Some tok)"

lemma handed_over_found:
  assumes "well_formed s" and "sers s sn = Some n" and "serves env n k w a"
    and "token_free s n (token r)"
  shows "find_token (token_at (handed_over i a r bf sn n s)) (token r) (Completed_RequestsHead (moved i a n)) =
    Inr (Some a)"
proof -
  note ok = wf_serD [OF assms(1,2)] and a = serves_slot(5) [OF assms(1-3)]
  have "\<exists>t. token_at (handed_over i a r bf sn n s) c = Some t \<and> t \<noteq> token r"
    if c: "c \<in> set (Completed_RequestsHead n)" for c
  proof -
    from ser_ok_completed [OF ok c] obtain q where "reqs s c = Some q" by blast
    with a c assms(4) show ?thesis by (auto simp: token_at_def token_free_def)
  qed
  then show ?thesis
    by (simp only: moved_simps) (rule find_token_snoc, auto simp: token_at_def woken_def)
qed


text \<open>
  C14: A response travels whole: what a worker hands in with linber_End_Job is, byte for
  byte, what the client's linber_request_service_get_response writes to its buffer; the
  client's semaphore is raised in between, and afterwards the request and the response's
  buffer are freed.
\<close>

theorem job_round_trip:
  assumes "well_formed s" and "env_ok env s" and "lookup s u = Some sn" and "sers s sn = Some n"
    and "\<not> destroy_me n" and "serves env n (ej_service_token ej) (ej_worker_id ej) a"
    and "reqs s a = Some r" and "token_free s n (token r)"
    and "ej_response_shm_mode ej \<noteq> 1" and "ej_response_len ej \<le> LINBER_MAX_MEM_SIZE"
    and "kmalloc_buffer env (ej_response_len ej) = Some (b, g)"
    and "copy_from_user (ej_response ej) (unat (ej_response_len ej)) s = Some data"
    and "get_user_long (ptr_token rp) s = Some (token r)"
    and "umem s (ptr_response rp) = Some (UBytes old)" and "length data \<le> length old"
  shows "\<exists>s1 s2. linber_End_Job env u ej s = Inr (Done 0, s1) \<and>
    map_option Request_sem (reqs s1 a) = Some (Suc (Request_sem r)) \<and>
    linber_request_service_get_response env' u rp s1 = Inr (Done LINBER_REQUEST_SUCCESS, s2) \<and>
    umem s2 (ptr_response rp) = Some (UBytes (data @ drop (length data) old)) \<and>
    reqs s2 a = None \<and> bufs s2 b = None \<and> well_formed s2"
proof -
  note slot = serves_slot [OF assms(1,4,6)]
  let ?r = "(answered ej r)\<lparr>response := b, result_cmd := LINBER_REQUEST_SUCCESS\<rparr>"
  let ?i = "unat (ej_worker_id ej)"
  define s1 where "s1 = handed_over ?i a ?r ((bufs s)(b \<mapsto> data)) sn n s"
  have E: "linber_End_Job env u ej s = Inr (Done 0, s1)"
    using End_Job_serving [OF assms(1,3,4) _ slot(1) _ assms(7)] assms(6,9,11,12) leD [OF assms(10)]
    by (simp add: serves_def s1_def Let_def)
  from linber_End_Job_ok [OF assms(1,2), of u ej] E have wf: "well_formed s1" by simp
  have n1: "sers s1 sn = Some (moved ?i a n)" and r1: "reqs s1 a = Some (woken ?r)"
    by (simp_all add: s1_def)
  have a1: "a \<in> set (Completed_RequestsHead (moved ?i a n))" by simp
  have f: "find_token (token_at s1) (token r) (Completed_RequestsHead (moved ?i a n)) = Inr (Some a)"
    using handed_over_found [OF assms(1,4,6), of ?r] assms(8) by (simp add: s1_def answered_def)
  have G: "linber_request_service_get_response env' u rp s1 =
      deliver rp a (woken ?r) (s1\<lparr>sers := (sers s1)(sn \<mapsto> without a (moved ?i a n))\<rparr>)"
    using assms(3,5,13) by (intro get_response_found [OF wf _ n1 _ _ f r1])
      (simp_all add: s1_def get_user_long_def)
  have rdy: "ready (woken ?r)" by (simp add: ready_def woken_def)
  have c: "copy_to_user (ptr_response rp) (the (bufs s1 b)) s1 =
      Some (s1\<lparr>umem := (umem s)(ptr_response rp \<mapsto> UBytes (data @ drop (length data) old))\<rparr>)"
    using assms(14,15) by (simp add: s1_def copy_to_user_def)
  have resp: "response (woken ?r) = b" "\<not> response_shm_mode (woken ?r)"
    "result_cmd (woken ?r) = LINBER_REQUEST_SUCCESS"
    using assms(9) by (simp_all add: woken_def answered_def)
  let ?s2 = "(released a (woken ?r) sn (moved ?i a n) s1)\<lparr>umem :=
      (umem s)(ptr_response rp \<mapsto> UBytes (data @ drop (length data) old))\<rparr>"
  have D: "linber_request_service_get_response env' u rp s1 = Inr (Done LINBER_REQUEST_SUCCESS, ?s2)"
    using deliver_eq [OF wf n1 a1 r1 rdy, of rp] unfolding G resp(1) c by (simp add: resp)
  have "well_formed ?s2"
    using released_wf [OF wf n1 a1 r1] by simp
  moreover have "reqs ?s2 a = None" "bufs ?s2 b = None"
    by (simp_all add: released_def response_buf_def resp)
  ultimately show ?thesis
    using E D by (intro exI [of _ s1] exI [of _ ?s2]) (simp add: r1 woken_def answered_def)
qed

theorem job_round_trip_witness:
  "\<exists>s1 s2. linber_End_Job ex_env [115] ex_answer ex_serving = Inr (Done 0, s1) \<and>
     linber_request_service_get_response ex_env [115] ex_fetch s1 = Inr (Done 0, s2) \<and>
     umem s2 101 = Some (UBytes [6, 7])"
proof -
  have "\<exists>s1 s2. linber_End_Job ex_env [115] ex_answer ex_serving = Inr (Done 0, s1) \<and>
    map_option Request_sem (reqs s1 21) = Some (Suc (Request_sem ex_request)) \<and>
    linber_request_service_get_response ex_env [115] ex_fetch s1 = Inr (Done LINBER_REQUEST_SUCCESS, s2) \<and>
    umem s2 (ptr_response ex_fetch) = Some (UBytes ([6, 7] @ drop (length [6, 7 :: u8]) [0, 0])) \<and>
    reqs s2 21 = None \<and> bufs s2 33 = None \<and> well_formed s2"
    by (rule job_round_trip [OF ex_serving_wf ex_envs_ok(3), where sn = 7
          and n = "ex_node\<lparr>worker_slots := [\<lparr>task = Some 5, serving = Some 21\<rparr>]\<rparr>" and g = "[0, 0]"])
      (simp_all add: ex_serving_def ex_node_def serves_def Service_check_Worker_def ex_env_def
        ex_answer_def ex_fetch_def token_free_def ex_request_def codes copy_from_user_def
        get_user_long_def ex_umem_def)
  then show ?thesis by (simp add: ex_fetch_def codes) blast
qed


text \<open>
  C15: A response in shared memory is announced as it is: after linber_End_Job, the woken
  client's call stores the length the worker gave, the mode, and the key, which survives
  its stay in the union with the buffer pointer.
\<close>

theorem shm_response_announced:
  assumes "well_formed s" and "lookup s u = Some sn" and "sers s sn = Some n"
    and "serves env n (ej_service_token ej) (ej_worker_id ej) a" and "reqs s a = Some r"
    and "ej_response_shm_mode ej = 1"
    and "umem s (ptr_response_len rp) \<noteq> None" and "umem s (ptr_response_shm_mode rp) \<noteq> None"
    and "umem s (ptr_shm_response_key rp) \<noteq> None"
    and "distinct [ptr_response_len rp, ptr_response_shm_mode rp, ptr_shm_response_key rp]"
  shows "\<exists>s1 s2. linber_End_Job env u ej s = Inr (Done 0, s1) \<and>
    request_completed rp a s1 = Inr (Done LINBER_REQUEST_SUCCESS, s2) \<and>
    umem s2 (ptr_response_len rp) = Some (UInt (ej_response_len ej)) \<and>
    umem s2 (ptr_response_shm_mode rp) = Some (UInt 1) \<and>
    umem s2 (ptr_shm_response_key rp) = Some (UInt (shm_key (ej_response ej)))"
proof -
  note slot = serves_slot [OF assms(1,3,4)]
  let ?r = "(answered ej r)\<lparr>response := set_shm_key (shm_key (ej_response ej)) (response r),
    result_cmd := LINBER_REQUEST_SUCCESS\<rparr>"
  let ?s1 = "handed_over (unat (ej_worker_id ej)) a ?r (bufs s) sn n s"
  have E: "linber_End_Job env u ej s = Inr (Done 0, ?s1)"
    using End_Job_serving [OF assms(1-3) _ slot(1) _ assms(5)] assms(4,6)
    by (simp add: serves_def Let_def)
  have "\<exists>s2. request_completed rp a ?s1 = Inr (Done LINBER_REQUEST_SUCCESS, s2) \<and>
    umem s2 (ptr_response_len rp) = Some (UInt (ej_response_len ej)) \<and>
    umem s2 (ptr_response_shm_mode rp) = Some (UInt 1) \<and>
    umem s2 (ptr_shm_response_key rp) = Some (UInt (shm_key (ej_response ej)))"
    using assms(6-10)
    by (auto simp: request_completed_def load_req_def put_user_def woken_def answered_def Let_def
        CHECK_MEMORY_ERROR_def flag_cell_def)
  with E show ?thesis by blast
qed

theorem shm_response_announced_witness:
  "\<exists>s1 s2. linber_End_Job ex_env [115] (ex_answer\<lparr>ej_response_shm_mode := 1, ej_response := 9\<rparr>) ex_serving =
       Inr (Done 0, s1) \<and> request_completed (ex_fetch\<lparr>ptr_shm_response_key := 100\<rparr>) 21 s1 = Inr (Done 0, s2) \<and>
     umem s2 100 = Some (UInt 9)"
proof -
  have "\<exists>s1 s2. linber_End_Job ex_env [115] (ex_answer\<lparr>ej_response_shm_mode := 1, ej_response := 9\<rparr>)
      ex_serving = Inr (Done 0, s1) \<and>
    request_completed (ex_fetch\<lparr>ptr_shm_response_key := 100\<rparr>) 21 s1 = Inr (Done LINBER_REQUEST_SUCCESS, s2) \<and>
    umem s2 (ptr_response_len (ex_fetch\<lparr>ptr_shm_response_key := 100\<rparr>)) =
      Some (UInt (ej_response_len (ex_answer\<lparr>ej_response_shm_mode := 1, ej_response := 9\<rparr>))) \<and>
    umem s2 (ptr_response_shm_mode (ex_fetch\<lparr>ptr_shm_response_key := 100\<rparr>)) = Some (UInt 1) \<and>
    umem s2 (ptr_shm_response_key (ex_fetch\<lparr>ptr_shm_response_key := 100\<rparr>)) =
      Some (UInt (shm_key (ej_response (ex_answer\<lparr>ej_response_shm_mode := 1, ej_response := 9\<rparr>))))"
    by (rule shm_response_announced [OF ex_serving_wf, where sn = 7 and r = ex_request
          and n = "ex_node\<lparr>worker_slots := [\<lparr>task = Some 5, serving = Some 21\<rparr>]\<rparr>"])
      (simp_all add: ex_serving_def ex_node_def serves_def Service_check_Worker_def ex_env_def
        ex_answer_def ex_fetch_def ex_umem_def)
  then show ?thesis by (simp add: ex_fetch_def ex_answer_def shm_key_def codes) blast
qed


section \<open>Who may fetch a response\<close>

text \<open>
  C16: The phase that waits for a response is reserved to the client of the request: when
  linber_request_service waits on a request, the caller sent it, and nothing has changed.
\<close>

theorem only_owner_waits:
  assumes "well_formed s" and "linber_request_service env u rp s = Inr (Wait_response a, s')"
  shows "s' = s \<and> (\<exists>r. reqs s a = Some r \<and> client r = current env)"
proof -
  have queued: "enqueue_and_wait env sn rp b key t \<noteq> Inr (Wait_response a, s')" for sn b key t
    by (auto simp: enqueue_and_wait_def request_queued_def bnd_eq_Inr CHECK_MEMORY_ERROR_def
        split: option.splits prod.splits if_splits)
  from assms(2) obtain sn n tok where n: "sers s sn = Some n"
    and f: "bnd (find_Waiting_or_Completed_Request sn (rp_abs_deadline_ns rp) tok s)
      (\<lambda>(req_node, s). case req_node of
         None \<Rightarrow> Inr (Done LINBER_REQUEST_FAILED, s)
       | Some a \<Rightarrow> bnd (load_req a s) (\<lambda>r. if client r \<noteq> current env
           then Inr (Done LINBER_REQUEST_FAILED, s) else Inr (Wait_response a, s))) = Inr (Wait_response a, s')"
    by (auto simp: linber_request_service_def linber_request_service_found_def findService_wf [OF assms(1)] load_ser_def Let_def queued
        CHECK_KMALLOC_ERROR_def CHECK_MEMORY_ERROR_def split: option.splits if_splits)
  from bndE [OF f] obtain q t
    where q: "find_Waiting_or_Completed_Request sn (rp_abs_deadline_ns rp) tok s = Inr (q, t)"
      and k: "(case q of None \<Rightarrow> Inr (Done LINBER_REQUEST_FAILED, t)
       | Some a \<Rightarrow> bnd (load_req a t) (\<lambda>r. if client r \<noteq> current env
           then Inr (Done LINBER_REQUEST_FAILED, t) else Inr (Wait_response a, t))) = Inr (Wait_response a, s')"
    by (metis (mono_tags, lifting) case_prod_unfold surjective_pairing)
  from find_Waiting_or_Completed_ok [OF n wf_serD [OF assms(1) n], of "rp_abs_deadline_ns rp" tok]
  have "t = s" unfolding q by simp
  with k show ?thesis
    by (auto simp: load_req_def split: option.splits if_splits)
qed

theorem only_owner_waits_witness:
  "\<exists>r. reqs ex_completed 21 = Some r \<and> client r = 5"
proof -
  have found: "findService [115] ex_completed = Inr (Some 7, ex_completed)"
    by (simp add: findService_wf) (simp add: ex_completed_def ex_node_def)
  have "linber_request_service ex_env [115] ex_fetch ex_completed = Inr (Wait_response 21, ex_completed)"
    unfolding linber_request_service_def linber_request_service_found_def found
    by (simp add: ex_fetch_def codes get_user_long_def find_Waiting_or_Completed_Request_def steps
        RBtree_get_request.simps ex_completed_def ex_node_def ex_umem_def ex_done_def ex_request_def
        ex_env_def token_at_def)
  from only_owner_waits [OF ex_completed_wf this] show ?thesis by (simp add: ex_env_def)
qed

text \<open>
  C17: Fetching the response is not reserved: any process that knows the token gets the
  response of another client, which frees the request; the client's own call, woken by the
  worker, then reads freed memory.
\<close>

theorem stranger_takes_response:
  assumes "well_formed s" and "lookup s u = Some sn" and "sers s sn = Some n" and "\<not> destroy_me n"
    and "find_token (token_at s) (token r) (Completed_RequestsHead n) = Inr (Some a)"
    and "reqs s a = Some r" and "ready r" and "\<not> response_shm_mode r" and "client r \<noteq> current env"
    and "get_user_long (ptr_token rp) s = Some (token r)"
    and "umem s (ptr_response rp) = Some (UBytes old)" and "unat (response_len r) \<le> length old"
  shows "\<exists>s' data. bufs s (response r) = Some data \<and>
    linber_request_service_get_response env u rp s = Inr (Done (result_cmd r), s') \<and>
    umem s' (ptr_response rp) = Some (UBytes (data @ drop (length data) old)) \<and>
    request_completed rp' a s' = Inl Use_after_free"
proof -
  have a: "a \<in> set (Completed_RequestsHead n)" using find_token_Some [OF assms(5)] by simp
  from completed_bufs(2) [OF wf_serD [OF assms(1,3)] a assms(6-8)]
  obtain data where d: "bufs s (response r) = Some data" "length data = unat (response_len r)"
    by (auto simp: buf_len_def)
  let ?m = "(umem s)(ptr_response rp \<mapsto> UBytes (data @ drop (length data) old))"
  let ?s' = "(released a r sn n s)\<lparr>umem := ?m\<rparr>"
  have "copy_to_user (ptr_response rp) (the (bufs s (response r))) s = Some (s\<lparr>umem := ?m\<rparr>)"
    using assms(11,12) d by (simp add: copy_to_user_def)
  then have "linber_request_service_get_response env u rp s = Inr (Done (result_cmd r), ?s')"
    unfolding get_response_found [OF assms(1-4,10,5,6)] deliver_eq [OF assms(1,3) a assms(6,7)]
    using assms(8) by simp
  moreover have "request_completed rp' a ?s' = Inl Use_after_free"
    by (simp add: request_completed_def load_req_def released_def)
  ultimately show ?thesis using d by (intro exI [of _ ?s'] exI [of _ data]) simp
qed

theorem stranger_takes_response_witness:
  "\<exists>s'. linber_request_service_get_response (ex_env\<lparr>current := 6\<rparr>) [115] ex_fetch ex_completed =
     Inr (Done 0, s') \<and> umem s' 101 = Some (UBytes [3, 4]) \<and>
     request_completed ex_fetch 21 s' = Inl Use_after_free"
  using stranger_takes_response [OF ex_completed_wf, of "[115]" 7 _ ex_done 21
      "ex_env\<lparr>current := 6\<rparr>" ex_fetch "[0, 0]" ex_fetch]
  by (simp add: ex_completed_def ex_node_def ex_done_def ex_request_def ready_def ex_fetch_def
      get_user_long_def ex_umem_def codes token_at_def)


section \<open>Payloads that are too long\<close>

lemma enqueue_and_wait_result:
  "enqueue_and_wait env sn rp b key s \<noteq> Inr (Done LINBER_PAYLOAD_SIZE_ERROR, s')"
  by (auto simp: enqueue_and_wait_def request_queued_def bnd_eq_Inr CHECK_MEMORY_ERROR_def codes
      split: option.splits prod.splits if_splits)

text \<open>
  C18: The limit on payloads is exact: a new request for a living service is refused for
  its size if and only if it is not in shared memory and longer than 4 MB, and a refused
  request leaves the state as it was.
\<close>

theorem payload_limit:
  assumes "well_formed s" and "lookup s u = Some sn" and "sers s sn = Some n" and "\<not> destroy_me n"
    and "status rp = 0"
  shows "linber_request_service env u rp s = Inr (Done LINBER_PAYLOAD_SIZE_ERROR, s') \<longleftrightarrow>
    rp_request_shm_mode rp \<noteq> 1 \<and> 4194304 < unat (rp_request_len rp) \<and> s' = s"
proof -
  have mem: "LINBER_MAX_MEM_SIZE < x \<longleftrightarrow> 4194304 < unat x" for x
    by (simp add: codes word_less_nat_alt)
  have init: "sint (status rp) = LINBER_REQUEST_INIT" using assms(5) by (simp add: codes)
  have codes_differ: "LINBER_USER_MEMORY_ERROR \<noteq> LINBER_PAYLOAD_SIZE_ERROR"
    "LINBER_KERNEL_MEMORY_ERROR \<noteq> LINBER_PAYLOAD_SIZE_ERROR" by (simp_all add: codes)
  show ?thesis
    using assms(1-4)
    by (auto simp: linber_request_service_def linber_request_service_found_def findService_wf load_ser_def mem Let_def init codes_differ
        enqueue_and_wait_result CHECK_KMALLOC_ERROR_def CHECK_MEMORY_ERROR_def
        split: option.split prod.split)
qed

theorem payload_limit_witness:
  "linber_request_service ex_env [115] (ex_fetch\<lparr>status := 0, rp_request_len := 5000000\<rparr>) ex_idle =
     Inr (Done LINBER_PAYLOAD_SIZE_ERROR, ex_idle)"
proof -
  have n: "lookup ex_idle [115] = Some 7" "sers ex_idle 7 = Some ex_node" "\<not> destroy_me ex_node"
    by (simp_all add: ex_idle_def) (simp_all add: ex_node_def)
  have "status (ex_fetch\<lparr>status := 0, rp_request_len := 5000000\<rparr>) = 0" by simp
  from payload_limit [OF ex_idle_wf n this, of ex_env ex_idle] show ?thesis
    by (simp add: ex_fetch_def)
qed

text \<open>
  C19: A response that is longer than 4 MB fails the request, and its client is woken, but
  the request keeps the response pointer it had, which was never set: a client that asks
  for the response makes the kernel copy from that pointer, and free it.
\<close>

theorem oversize_response_wild:
  assumes "well_formed s" and "lookup s u = Some sn" and "sers s sn = Some n" and "\<not> destroy_me n"
    and "serves env n (ej_service_token ej) (ej_worker_id ej) a" and "reqs s a = Some r"
    and "token_free s n (token r)" and "ej_response_shm_mode ej \<noteq> 1"
    and "LINBER_MAX_MEM_SIZE < ej_response_len ej" and "bufs s (response r) = None"
    and "get_user_long (ptr_token rp) s = Some (token r)"
  shows "\<exists>s1. linber_End_Job env u ej s = Inr (Done LINBER_PAYLOAD_SIZE_ERROR, s1) \<and> well_formed s1 \<and>
    request_completed rp a s1 = Inr (Done LINBER_REQUEST_FAILED, s1) \<and>
    linber_request_service_get_response env' u rp s1 = Inl Wild_pointer"
proof -
  note slot = serves_slot [OF assms(1,3,5)]
  let ?r = "(answered ej r)\<lparr>result_cmd := LINBER_REQUEST_FAILED\<rparr>" and ?i = "unat (ej_worker_id ej)"
  let ?s1 = "handed_over ?i a ?r (bufs s) sn n s"
  have serv: "serving (worker_slots n ! ?i) = Some a" using assms(5) by (simp add: serves_def)
  have E: "linber_End_Job env u ej s = Inr (Done LINBER_PAYLOAD_SIZE_ERROR, ?s1)"
    using End_Job_serving [OF assms(1-3) _ slot(1) serv assms(6)] assms(5,8,9)
    by (simp add: serves_def Let_def)
  have wf: "well_formed ?s1"
    by (rule handed_over_wf [OF assms(1,3) slot(3) serv assms(6)])
      (simp_all add: response_ok_def response_buf_def codes)
  have f: "find_token (token_at ?s1) (token r) (Completed_RequestsHead (moved ?i a n)) = Inr (Some a)"
    using handed_over_found [OF assms(1,3,5), of ?r] assms(7) by (simp add: answered_def)
  have "linber_request_service_get_response env' u rp ?s1 =
      deliver rp a (woken ?r) (?s1\<lparr>sers := (sers ?s1)(sn \<mapsto> without a (moved ?i a n))\<rparr>)"
    using assms(2,4,11) by (intro get_response_found [OF wf _ _ _ _ f]) (simp_all add: get_user_long_def)
  also have "\<dots> = Inl Wild_pointer"
    using assms(8,10) by (simp add: deliver_def woken_def answered_def load_buf_def Let_def)
  finally have G: "linber_request_service_get_response env' u rp ?s1 = Inl Wild_pointer" .
  have "request_completed rp a ?s1 = Inr (Done LINBER_REQUEST_FAILED, ?s1)"
    by (simp add: request_completed_def load_req_def woken_def codes)
  with E wf G show ?thesis by (intro exI [of _ ?s1]) (simp add: codes)
qed

theorem oversize_response_wild_witness:
  "\<exists>s1. linber_End_Job ex_env [115] (ex_answer\<lparr>ej_response_len := 5000000\<rparr>) ex_serving =
       Inr (Done (- 29), s1) \<and>
     linber_request_service_get_response ex_env [115] ex_fetch s1 = Inl Wild_pointer"
proof -
  have "\<exists>s1. linber_End_Job ex_env [115] (ex_answer\<lparr>ej_response_len := 5000000\<rparr>) ex_serving =
      Inr (Done LINBER_PAYLOAD_SIZE_ERROR, s1) \<and> well_formed s1 \<and>
    request_completed ex_fetch 21 s1 = Inr (Done LINBER_REQUEST_FAILED, s1) \<and>
    linber_request_service_get_response ex_env [115] ex_fetch s1 = Inl Wild_pointer"
    by (rule oversize_response_wild [OF ex_serving_wf, where sn = 7 and r = ex_request
          and n = "ex_node\<lparr>worker_slots := [\<lparr>task = Some 5, serving = Some 21\<rparr>]\<rparr>"])
      (simp_all add: ex_serving_def ex_node_def serves_def Service_check_Worker_def ex_env_def
        ex_answer_def ex_fetch_def token_free_def ex_request_def codes get_user_long_def ex_umem_def)
  then show ?thesis by (auto simp: codes)
qed

end
