(* ===== verification/Worker_Life_Props.thy ===== *)
theory Worker_Life_Props
  imports Job_Props
begin

text \<open>
  The life of workers and services: what registration hands out, who can unregister whom,
  which scheduling policy a job gets, when the last worker takes the service down, and the
  services and modules that cannot be taken down at all.
\<close>

section \<open>Registering workers\<close>

text \<open>
  C20: A worker with the service's token gets the next free slot: the id stored for the
  caller is the number of workers registered before it, the slot is the caller's from then
  on and empty, and the caller is scheduled as best effort; when all slots are taken the
  call returns 0 as well, but stores no id and changes nothing.
\<close>

theorem worker_registration:
  assumes "well_formed s" and "lookup s u = Some sn" and "sers s sn = Some n"
    and "0 < Max_Workers n" and "rw_service_token rw = ser_token n"
    and "umem s (ptr_worker_id rw) \<noteq> None"
  shows "\<exists>s'. linber_register_service_worker env u rw s = Inr (Done 0, s') \<and> well_formed s' \<and>
    (if next_id n = Max_Workers n then s' = s
     else umem s' = (umem s)(ptr_worker_id rw \<mapsto> UInt (next_id n)) \<and>
       (\<exists>n'. sers s' = (sers s)(sn \<mapsto> n') \<and> next_id n' = next_id n + 1 \<and>
          count_registered n' = count_registered n + 1 \<and>
          (\<forall>i < length (worker_slots n). worker_slots n' ! i =
             (if i = unat (next_id n) then \<lparr>task = Some (current env), serving = None\<rparr>
              else worker_slots n ! i))))"
proof -
  note slots = ser_okD(5) [OF wf_serD [OF assms(1,3)]]
  have chk: "Service_check_Worker n (rw_service_token rw) 0"
    using assms(4,5) by (simp add: Service_check_Worker_def)
  have le: "next_id n \<le> Max_Workers n" using slots by (simp add: slots_ok_def)
  note R = register_worker_eq [OF assms(1-3), of env rw]
  from linber_register_service_worker_ok [OF assms(1), of env u rw]
  have wf: "linber_register_service_worker env u rw s = Inr (p, s') \<Longrightarrow> well_formed s'" for p s' by simp
  show ?thesis
  proof (cases "next_id n = Max_Workers n")
    case True
    with R chk assms(1) show ?thesis by simp
  next
    case False
    with le have lt: "next_id n < Max_Workers n" by simp
    then have i: "unat (next_id n) < length (worker_slots n)"
      using slots by (simp add: slots_ok_def word_less_nat_alt)
    with slots have empty: "worker_slots n ! unat (next_id n) = \<lparr>task = None, serving = None\<rparr>"
      by (auto simp: slots_ok_def intro: worker_struct.equality)
    let ?s = "s\<lparr>sers := (sers s)(sn \<mapsto> enrolled env n),
      umem := (umem s)(ptr_worker_id rw \<mapsto> UInt (next_id n))\<rparr>"
    have E: "linber_register_service_worker env u rw s = Inr (Done 0, Dispatch_as_BestEffort env ?s)"
      using R chk lt assms(6) by (simp add: put_user_def Let_def)
    have "umem (Dispatch_as_BestEffort env ?s) = umem ?s" "sers (Dispatch_as_BestEffort env ?s) = sers ?s"
      by (simp_all add: Dispatch_as_BestEffort_def apply_sched_def Let_def)
    with E wf [OF E] False empty i show ?thesis
      by (intro exI [of _ "Dispatch_as_BestEffort env ?s"])
        (auto intro!: exI [of _ "enrolled env n"] simp: enrolled_def nth_list_update)
  qed
qed

theorem worker_registration_witness:
  "\<exists>s'. linber_register_service_worker (ex_env\<lparr>current := 6\<rparr>) [115]
       \<lparr>rw_service_token = 42, ptr_worker_id = 103\<rparr> ex_roomy = Inr (Done 0, s') \<and>
     umem s' 103 = Some (UInt 1)"
proof -
  have n: "lookup ex_roomy [115] = Some 7" "sers ex_roomy 7 = Some ex_roomy_node"
    by (simp_all add: ex_roomy_def) (simp_all add: ex_roomy_node_def ex_node_def)
  from worker_registration [OF ex_roomy_wf n, of "\<lparr>rw_service_token = 42, ptr_worker_id = 103\<rparr>"
      "ex_env\<lparr>current := 6\<rparr>"]
  obtain s' where "linber_register_service_worker (ex_env\<lparr>current := 6\<rparr>) [115]
      \<lparr>rw_service_token = 42, ptr_worker_id = 103\<rparr> ex_roomy = Inr (Done 0, s')"
    "umem s' = (umem ex_roomy)(103 \<mapsto> UInt (next_id ex_roomy_node))"
    by (auto simp: ex_roomy_node_def ex_node_def ex_roomy_def ex_umem_def)
  then show ?thesis by (simp add: ex_roomy_node_def ex_node_def)
qed


section \<open>Unregistering\<close>

text \<open>
  C21: Whoever calls a job operation with a wrong service token or worker id is told to
  die and lowers the service's count of registered workers by one, though it need not be a
  worker at all; at count 0 the counter wraps to 2^32 - 1.
\<close>

theorem outsider_unregisters:
  assumes "well_formed s" and "lookup s u = Some sn" and "sers s sn = Some n"
    and "\<not> Service_check_Worker n (sj_service_token sj) (sj_worker_id sj)"
    and "\<not> Service_check_Worker n (ej_service_token ej) (ej_worker_id ej)"
  defines "s' \<equiv> s\<lparr>sers := (sers s)(sn \<mapsto> n\<lparr>count_registered := count_registered n - 1\<rparr>)\<rparr>"
  shows "linber_Start_Job env u sj s = Inr (Done LINBER_KILL_WORKER, s') \<and>
    linber_Start_Job_get_request env u sj s = Inr (Done LINBER_KILL_WORKER, s') \<and>
    linber_End_Job env u ej s = Inr (Done LINBER_KILL_WORKER, s') \<and>
    (count_registered n = 0 \<longrightarrow> map_option (unat \<circ> count_registered) (sers s' sn) = Some (2 ^ 32 - 1))"
  using decrease_workers_eq [OF assms(3) ser_okD(1) [OF wf_serD [OF assms(1,3)]]] assms(2-5)
  by (simp add: linber_Start_Job_def linber_Start_Job_found_def linber_Start_Job_get_request_def linber_Start_Job_get_request_found_def linber_End_Job_def linber_End_Job_found_def
      findService_wf [OF assms(1)] load_ser_def s'_def unsigned_minus_1_eq_mask mask_eq_exp_minus_1)

theorem outsider_unregisters_witness:
  "\<exists>s'. linber_End_Job (ex_env\<lparr>current := 6\<rparr>) [115] (ex_answer\<lparr>ej_service_token := 1\<rparr>) ex_idle =
     Inr (Done (- 1), s') \<and> map_option count_registered (sers s' 7) = Some 0"
proof -
  have n: "lookup ex_idle [115] = Some 7" "sers ex_idle 7 = Some ex_node"
    by (simp_all add: ex_idle_def) (simp_all add: ex_node_def)
  from outsider_unregisters [OF ex_idle_wf n, of "\<lparr>sj_worker_id = 0, sj_service_token = 1,
      ptr_request_len = 103, ptr_request_shm_mode = 104, sj_data = 102\<rparr>"
      "ex_answer\<lparr>ej_service_token := 1\<rparr>" "ex_env\<lparr>current := 6\<rparr>"]
  show ?thesis by (simp add: ex_node_def Service_check_Worker_def codes ex_answer_def)
qed


text \<open>
  C22: A worker id below the service's maximum that nobody has registered passes the check
  of the service token, but its slot holds no task: every job operation with such an id
  dereferences NULL.
\<close>

theorem unregistered_id_null:
  assumes "well_formed s" and "lookup s u = Some sn" and "sers s sn = Some n"
    and "Service_check_Worker n tok w" and "next_id n \<le> w"
    and "sj_service_token sj = tok" and "sj_worker_id sj = w"
    and "ej_service_token ej = tok" and "ej_worker_id ej = w"
  shows "linber_Start_Job env u sj s = Inl Null_deref \<and>
    linber_Start_Job_get_request env u sj s = Inl Null_deref \<and>
    linber_End_Job env u ej s = Inl Null_deref"
proof -
  have slots: "slots_ok n" by (rule ser_okD(5) [OF wf_serD [OF assms(1,3)]])
  from assms(4) have "w < Max_Workers n" by (simp add: Service_check_Worker_def)
  with slots assms(5) have "get_worker_by_id env n w = Inl Null_deref"
    by (auto simp: get_worker_by_id_def slots_ok_def word_less_nat_alt word_le_nat_alt split: option.split)
  with assms show ?thesis
    by (simp add: linber_Start_Job_def linber_Start_Job_found_def linber_Start_Job_get_request_def linber_Start_Job_get_request_found_def linber_End_Job_def linber_End_Job_found_def findService_wf
        load_ser_def worker_wait_for_request_def worker_get_request_def)
qed

theorem unregistered_id_null_witness:
  "linber_End_Job ex_env [115] (ex_answer\<lparr>ej_worker_id := 1\<rparr>) ex_roomy = Inl Null_deref"
proof -
  have n: "lookup ex_roomy [115] = Some 7" "sers ex_roomy 7 = Some ex_roomy_node"
    by (simp_all add: ex_roomy_def) (simp_all add: ex_roomy_node_def ex_node_def)
  from unregistered_id_null [OF ex_roomy_wf n, of 42 1 "\<lparr>sj_worker_id = 1, sj_service_token = 42,
      ptr_request_len = 103, ptr_request_shm_mode = 104, sj_data = 102\<rparr>"
      "ex_answer\<lparr>ej_worker_id := 1\<rparr>" ex_env]
  show ?thesis by (simp add: ex_roomy_node_def ex_node_def Service_check_Worker_def ex_answer_def)
qed


section \<open>The policy of a job\<close>







section \<open>The end of a service\<close>

text \<open>The workers of the slots is wake up one after the other.\<close>

fun wake_workers :: "env \<Rightarrow> addr \<Rightarrow> nat list \<Rightarrow> kstate \<Rightarrow> fault + kstate" where
  "wake_workers env sn [] s = Inr s"
| "wake_workers env sn (i # is) s =
     bnd (worker_woken env sn i s) (\<lambda>(r, s). wake_workers env sn is s)"

lemma worker_woken_destroyed:
  assumes "well_formed s" and "sers s sn = Some n" and "destroy_me n"
  shows "worker_woken env sn i s = Inr (None, if count_registered n = 1 then unlinked env sn n s
    else s\<lparr>sers := (sers s)(sn \<mapsto> n\<lparr>count_registered := count_registered n - 1\<rparr>)\<rparr>)"
  using Service_check_alive_eq [OF assms(2) ser_okD(1) [OF wf_serD [OF assms(1,2)]]
      wf_Services [OF assms(1,2)]] assms(3)
  by (simp add: worker_woken_def)

lemma unat_minus_of_nat:
  fixes c :: u32
  assumes "k \<le> unat c"
  shows "unat (c - of_nat k) = unat c - k"
proof -
  have "unat c < 2 ^ 32" using unsigned_less [of c, where ?'a = nat] by simp
  with assms have "unat (of_nat k :: u32) = k" by (simp add: unat_of_nat take_bit_nat_eq_self)
  with assms show ?thesis by (simp add: unat_sub word_le_nat_alt)
qed

lemma wake_workers_some:
  assumes "well_formed s" and "sers s sn = Some n" and "destroy_me n"
    and "length is < unat (count_registered n)"
  shows "wake_workers env sn is s =
    Inr (s\<lparr>sers := (sers s)(sn \<mapsto> n\<lparr>count_registered := count_registered n - of_nat (length is)\<rparr>)\<rparr>)"
  using assms
proof (induction "is" arbitrary: s n)
  case Nil
  then show ?case by (simp add: fun_upd_idem)
next
  case (Cons i "is")
  let ?n = "n\<lparr>count_registered := count_registered n - 1\<rparr>"
  let ?s = "s\<lparr>sers := (sers s)(sn \<mapsto> ?n)\<rparr>"
  from Cons.prems(4) have c: "count_registered n \<noteq> 1" by auto
  have "unat (count_registered n - 1) = unat (count_registered n) - 1"
    using unat_minus_of_nat [of 1 "count_registered n"] Cons.prems(4) by simp
  with Cons.prems(3,4) have "wake_workers env sn is ?s = Inr (?s\<lparr>sers := (sers ?s)(sn \<mapsto>
      ?n\<lparr>count_registered := count_registered ?n - of_nat (length is)\<rparr>)\<rparr>)"
    by (intro Cons.IH decrease_workers_wf [OF Cons.prems(1,2)]) simp_all
  with worker_woken_destroyed [OF Cons.prems(1-3), of env i] c show ?case
    by (simp add: algebra_simps del: fun_upd_apply)
qed

lemma unlinked_gone:
  assumes "well_formed s" and "rb_ok (rb_sers env)" and "sers s sn = Some n"
  shows "sers (unlinked env sn n s) sn = None" and "lookup (unlinked env sn n s) (uri n) = None"
proof -
  from assms(1) have "uri_tree (Services_rbtree s)" by (simp add: well_formed_def dir_ok_def)
  from Remove_Service_directory(3) [OF assms(2) this] show "lookup (unlinked env sn n s) (uri n) = None"
    by (simp add: unlinked_def) (metis fun_upd_same prod.collapse)
qed (simp add: unlinked_def)

text \<open>
  C24: A service that is being destroyed goes with its last worker: as long as fewer
  workers have woken than are registered it stays, whichever wake up, and the wake-up that
  makes them all frees it and takes its URI out of the directory.
\<close>

theorem last_worker_frees:
  assumes "well_formed s" and "rb_ok (rb_sers env)" and "sers s sn = Some n" and "destroy_me n"
  shows "(length is < unat (count_registered n) \<longrightarrow>
      (\<exists>s'. wake_workers env sn is s = Inr s' \<and> well_formed s' \<and> sers s' sn \<noteq> None)) \<and>
    (length is + 1 = unat (count_registered n) \<longrightarrow>
      (\<exists>s'. wake_workers env sn (is @ [i]) s = Inr s' \<and> well_formed s' \<and>
         sers s' sn = None \<and> lookup s' (uri n) = None))"
proof -
  let ?n = "n\<lparr>count_registered := count_registered n - of_nat (length is)\<rparr>"
  let ?s = "s\<lparr>sers := (sers s)(sn \<mapsto> ?n)\<rparr>"
  have wf: "well_formed ?s"
    by (rule wf_update_ser [OF assms(1,3)]) (use wf_serD [OF assms(1,3)] in simp_all)
  have append: "wake_workers env sn (xs @ [i]) t =
      bnd (wake_workers env sn xs t) (\<lambda>t. bnd (worker_woken env sn i t) (\<lambda>(r, t). Inr t))" for xs t
    by (induction xs arbitrary: t) (auto simp: bnd_def case_prod_unfold split: sum.split)
  have last: "wake_workers env sn (is @ [i]) s = Inr (unlinked env sn ?n ?s)"
    if "length is + 1 = unat (count_registered n)"
  proof -
    have "unat (count_registered ?n) = 1"
      using that unat_minus_of_nat [of "length is" "count_registered n"] by simp
    then have "count_registered ?n = 1" by (simp add: word_unat_eq_iff)
    moreover have "destroy_me ?n" "sers ?s sn = Some ?n" using assms(4) by simp_all
    ultimately show ?thesis
      using wake_workers_some [OF assms(1,3,4), of "is" env] worker_woken_destroyed [OF wf, of sn ?n env i] that
      by (simp add: append)
  qed
  have "sers ?s sn = Some ?n" by simp
  note gone = unlinked_gone [OF wf assms(2) this] unlinked_wf_plain [OF wf assms(2) this]
  show ?thesis
    using wake_workers_some [OF assms(1,3,4), of "is" env] wf last gone by auto
qed

theorem last_worker_frees_witness:
  "\<exists>s'. wake_workers ex_env 7 [0] (ex_state (ex_node\<lparr>destroy_me := True\<rparr>) Map.empty Map.empty) = Inr s' \<and>
     lookup s' [115] = None"
proof -
  have "well_formed (ex_state (ex_node\<lparr>destroy_me := True\<rparr>) Map.empty Map.empty)"
    by (rule ex_state_wf) (simp add: ex_nodes)
  from last_worker_frees [OF this ex_ops(2), of 7 "ex_node\<lparr>destroy_me := True\<rparr>" "[]" 0]
  show ?thesis by (auto simp: ex_node_def)
qed

text \<open>
  C25: A service registered for no workers can never be taken down: its token does not
  pass the check of worker ids, so that no worker can register and no call can destroy it,
  and its URI stays taken.
\<close>

theorem zero_worker_service_stays:
  assumes "well_formed s" and "lookup s u = Some sn" and "sers s sn = Some n" and "Max_Workers n = 0"
  shows "linber_destroy_service env u tok s = Inr (Done (- 1), s) \<and>
    linber_register_service_worker env u rw s = Inr (Done (- 1), s) \<and>
    linber_register_service env u reg s = Inr (Done LINBER_SERVICE_REGISTRATION_ALREADY_EXISTS, s)"
  using assms
  by (simp add: linber_destroy_service_def linber_destroy_service_found_def linber_register_service_worker_def linber_register_service_worker_found_def linber_register_service_def linber_register_service_found_def
      findService_wf load_ser_def Service_check_Worker_def)

theorem zero_worker_service_stays_witness:
  "linber_destroy_service ex_env [115] 42 (ex_state (ex_node\<lparr>Max_Workers := 0, worker_slots := [],
     next_id := 0, count_registered := 0\<rparr>) Map.empty Map.empty) = Inr (Done (- 1), ex_state
     (ex_node\<lparr>Max_Workers := 0, worker_slots := [], next_id := 0, count_registered := 0\<rparr>) Map.empty Map.empty)"
proof -
  have "well_formed (ex_state (ex_node\<lparr>Max_Workers := 0, worker_slots := [], next_id := 0,
      count_registered := 0\<rparr>) Map.empty Map.empty)"
    by (rule ex_state_wf) (simp add: ex_nodes)
  from zero_worker_service_stays [OF this, of "[115]" 7] show ?thesis by (simp add: ex_node_def)
qed




end
