(* ===== verification/Device_Props.thy ===== *)
theory Device_Props
  imports Worker_Life_Props
begin

text \<open>
  The device as its users see it: what a system status reports and leaves behind, and what
  loading the module gives.
\<close>

section \<open>System status\<close>

lemma findService_locked: "linber_mutex s \<Longrightarrow> findService u s = Inl Deadlock"
  by (simp add: findService_def mutex_lock_linber_def)

text \<open>A state in which a status can be asked for at 110; the URI goes to p.\<close>

definition ex_entries :: "uaddr \<Rightarrow> service_status list" where
  "ex_entries p = replicate 10 \<lparr>st_uri = p, uri_len = 0, requests_count = 0, st_Max_Working = 0,
     exec_time_ms = 0, budget_ms = 0, period_ms = 0\<rparr>"

definition ex_status :: "uaddr \<Rightarrow> kstate" where
  "ex_status p = ex_idle\<lparr>umem := ex_umem(110 \<mapsto> USystem \<lparr>sys_Max_Working = 0, services_count = 0,
     services = 111\<rparr>, 111 \<mapsto> UServices (ex_entries p))\<rparr>"

lemma ex_status_simps [simp]:
  "well_formed (ex_status p)" "Services (ex_status p) = [7]" "sers (ex_status p) = [7 \<mapsto> ex_node]"
  "umem (ex_status p) 110 = Some (USystem \<lparr>sys_Max_Working = 0, services_count = 0, services = 111\<rparr>)"
  "get_services 111 MAX_SERVICES (ex_status p) = Some (ex_entries p)"
  "ex_entries p ! 0 = \<lparr>st_uri = p, uri_len = 0, requests_count = 0, st_Max_Working = 0,
     exec_time_ms = 0, budget_ms = 0, period_ms = 0\<rparr>"
  by (simp_all add: ex_status_def) (simp_all add: ex_idle_def get_services_def ex_entries_def codes)

text \<open>
  C27: A system status whose first URI buffer cannot be written returns an error with the
  module's mutex and the first service's mutex locked: from then on every other operation,
  of any process, waits for ever.
\<close>

theorem status_error_blocks_module:
  assumes "well_formed s" and "kmalloc_status env" and "umem s p = Some (USystem sys)"
    and "Services s = sn # rest" and "length (Services s) < 2 ^ 32" and "sers s sn = Some n"
    and "get_services (services sys) MAX_SERVICES s = Some entries"
    and "copy_to_user (st_uri (entries ! 0)) (cstr (uri n)) s = None"
  shows "\<exists>s'. linber_get_system_status env p s = Inr (Done LINBER_USER_MEMORY_ERROR, s') \<and>
    linber_mutex s' \<and> map_option service_mutex (sers s' sn) = Some True \<and>
    (\<forall>env' u reg rp rw sj ej tok.
       linber_register_service env' u reg s' = Inl Deadlock \<and>
       linber_request_service env' u rp s' = Inl Deadlock \<and>
       linber_request_service_get_response env' u rp s' = Inl Deadlock \<and>
       linber_register_service_worker env' u rw s' = Inl Deadlock \<and>
       linber_Start_Job env' u sj s' = Inl Deadlock \<and>
       linber_Start_Job_get_request env' u sj s' = Inl Deadlock \<and>
       linber_End_Job env' u ej s' = Inl Deadlock \<and>
       linber_destroy_service env' u tok s' = Inl Deadlock)"
proof -
  let ?l = "s\<lparr>linber_mutex := True\<rparr>"
  let ?s' = "?l\<lparr>sers := (sers s)(sn \<mapsto> n\<lparr>service_mutex := True\<rparr>)\<rparr>"
  from assms(1) have lock: "\<not> linber_mutex s" and count: "Services_count s = of_nat (length (Services s))"
    by (simp_all add: well_formed_def dir_ok_def)
  have "unat (Services_count s) = length (Services s)"
    unfolding count using assms(5) by (simp add: unat_of_nat take_bit_nat_eq_self)
  with assms(4) have pos: "0 < Services_count s" by (metis list.size(3) neq_Nil_conv unat_0 word_gt_0 length_0_conv)
  have len: "\<not> length entries \<le> 0"
    using get_services_length [OF assms(7)] by (simp add: codes)
  have "copy_to_user (st_uri (entries ! 0)) (cstr (uri n)) ?l = None"
    using assms(8) by (auto simp: copy_to_user_def split: option.splits uval.splits if_splits)
  with status_loop_step [of 0 ?l sn n rest entries] pos assms(6) len
    ser_okD(1) [OF wf_serD [OF assms(1,6)]]
  have "status_loop 0 (sn # rest) entries ?l = Inr (None, ?s')"
    by (simp del: status_loop.simps)
  with assms(4,7) pos have "linber_get_system_status env p s = Inr (Done LINBER_USER_MEMORY_ERROR, ?s')"
    by (simp add: status_eq [OF assms(2,3) lock] Let_def del: status_loop.simps)
  moreover have "linber_mutex ?s'" by simp
  ultimately show ?thesis
    by (intro exI [of _ ?s'])
      (simp add: linber_register_service_def linber_register_service_found_def linber_request_service_def linber_request_service_found_def
        linber_request_service_get_response_def linber_request_service_get_response_found_def linber_register_service_worker_def linber_register_service_worker_found_def linber_Start_Job_def linber_Start_Job_found_def
        linber_Start_Job_get_request_def linber_Start_Job_get_request_found_def linber_End_Job_def linber_End_Job_found_def linber_destroy_service_def linber_destroy_service_found_def findService_locked)
qed

theorem status_error_blocks_module_witness:
  "\<exists>s'. linber_get_system_status ex_env 110 (ex_status 0) = Inr (Done (- 31), s') \<and>
     linber_destroy_service ex_env [115] 42 s' = Inl Deadlock"
proof -
  have "copy_to_user 0 [115] (ex_status 0) = None"
    by (simp add: copy_to_user_def ex_status_def ex_umem_def)
  moreover have "kmalloc_status ex_env" by (simp add: ex_env_def)
  ultimately obtain s' where "linber_get_system_status ex_env 110 (ex_status 0) =
      Inr (Done LINBER_USER_MEMORY_ERROR, s')" "linber_destroy_service ex_env [115] 42 s' = Inl Deadlock"
    using status_error_blocks_module [of "ex_status 0" ex_env 110 _ 7 "[]" ex_node "ex_entries 0"]
    by (simp add: ex_node_def) blast
  then show ?thesis unfolding codes by blast
qed

text \<open>The loop writes only byte buffers of the user, so the arrays stay.\<close>

lemma copy_to_user_cells:
  assumes "copy_to_user p src s = Some s'" and "\<And>b. umem s q \<noteq> Some (UBytes b)"
  shows "umem s' q = umem s q"
proof (cases "q = p")
  case True
  from assms(1) obtain b where "umem s p = Some (UBytes b)"
    by (auto simp: copy_to_user_def split: option.splits uval.splits)
  with True assms(2) show ?thesis by blast
qed (use assms(1) in \<open>auto simp: copy_to_user_def split: option.splits uval.splits if_splits\<close>)

lemma status_loop_cells:
  assumes "status_loop i sns entries s = Inr (es, s')" and "\<And>b. umem s q \<noteq> Some (UBytes b)"
  shows "umem s' q = umem s q"
  using assms
proof (induction sns arbitrary: i entries s)
  case (Cons sn sns)
  show ?case
  proof (cases "of_nat i < Services_count s")
    case False
    with Cons show ?thesis by simp
  next
    case True
    with Cons.prems(1) obtain n where n: "sers s sn = Some n" "\<not> service_mutex n"
      by (auto simp: mutex_lock_ser_def load_ser_def bnd_eq_Inr split: option.splits if_splits)
    note step = Cons.prems(1) [unfolded status_loop_step [OF True n]]
    show ?thesis
    proof (cases "copy_to_user (st_uri (entries ! i)) (cstr (uri n)) s")
      case None
      with step show ?thesis by (auto split: if_splits)
    next
      case (Some t)
      with step have "status_loop (Suc i) sns (entries[i := report n (entries ! i)]) t = Inr (es, s')"
        by (simp split: if_splits del: status_loop.simps)
      with Cons.IH copy_to_user_cells [OF Some Cons.prems(2)] Cons.prems(2) show ?thesis by metis
    qed
  qed
qed simp

lemma reported_nth:
  assumes "j < length es"
  shows "reported s sns i es ! j =
    (if i \<le> j \<and> j < i + length sns then report (the (sers s (sns ! (j - i)))) (es ! j) else es ! j)"
  using assms
proof (induction sns arbitrary: i es)
  case (Cons sn sns)
  note IH = Cons.IH [of "es[i := report (the (sers s sn)) (es ! i)]" "Suc i"]
  show ?case
  proof (cases "Suc i \<le> j")
    case True
    then have "j - i = Suc (j - Suc i)" by simp
    with True Cons.prems IH show ?thesis by (simp add: nth_list_update)
  next
    case False
    with Cons.prems IH show ?thesis by (cases "j = i") simp_all
  qed
qed auto

text \<open>
  C28: A system status that succeeds tells the truth: the summary holds the number of
  services and of workers they may have, and entry i of the user's array holds the data of
  service i in the order of registration; entries beyond the last service are as they were.
\<close>

theorem status_reports_services:
  assumes "well_formed s" and "length (Services s) < 2 ^ 32" and "Services s \<noteq> []"
    and "linber_get_system_status env p s = Inr (Done 0, s')"
  shows "\<exists>sys es es'. umem s p = Some (USystem sys) \<and> umem s (services sys) = Some (UServices es) \<and>
    umem s' p = Some (USystem (sys\<lparr>sys_Max_Working := Max_Working s,
      services_count := of_nat (length (Services s))\<rparr>)) \<and>
    umem s' (services sys) = Some (UServices es') \<and> length es' = length es \<and>
    (\<forall>i < length es. es' ! i =
       (if i < length (Services s) then report (the (sers s (Services s ! i))) (es ! i) else es ! i))"
proof -
  let ?k = "length (Services s)" and ?l = "s\<lparr>linber_mutex := True\<rparr>"
  from assms(1) have lock: "\<not> linber_mutex s" and count: "Services_count s = of_nat ?k"
    by (simp_all add: well_formed_def dir_ok_def)
  have uc: "unat (Services_count s) = ?k"
    unfolding count using assms(2) by (simp add: unat_of_nat take_bit_nat_eq_self)
  with assms(3) have pos: "0 < Services_count s" by (metis length_0_conv unat_0 word_gt_0)
  from assms(4) obtain sys where alloc: "kmalloc_status env" and sys: "umem s p = Some (USystem sys)"
    by (auto simp: linber_get_system_status_def CHECK_KMALLOC_ERROR_def CHECK_MEMORY_ERROR_def codes
        split: if_splits option.splits uval.splits)
  let ?sys = "sys\<lparr>sys_Max_Working := Max_Working s, services_count := Services_count s\<rparr>"
  note eq = status_eq [OF alloc sys lock]
  from assms(4) pos obtain entries where ent: "get_services (services sys) MAX_SERVICES s = Some entries"
    by (auto simp: eq Let_def codes split: option.splits)
  then obtain es where es: "umem s (services sys) = Some (UServices es)" "entries = take 10 es" "10 \<le> length es"
    by (auto simp: get_services_def codes split: option.splits uval.splits if_splits)
  have free: "\<forall>sn \<in> set (Services s). \<exists>n. sers ?l sn = Some n \<and> \<not> service_mutex n"
    using assms(1) ser_okD(1) [OF wf_serD [OF assms(1)]] by (auto simp: well_formed_def dir_ok_def)
  have loop: "ends_in (status_loop 0 (Services s) entries ?l)
      (if Services s = [] \<or> 0 + ?k \<le> length entries then {} else {Buffer_overflow})
      (\<lambda>(es, s'). case es of
         Some es \<Rightarrow> only_umem ?l s' \<and> es = reported ?l (Services s) 0 entries \<and>
           (Services s = [] \<or> 0 + ?k \<le> length entries)
       | None \<Rightarrow> left_locked ?l s')"
    by (rule status_loop_ok) (use assms(2) count free in simp_all)
  from assms(4) pos ent have fin: "bnd (status_loop 0 (Services s) entries ?l) (\<lambda>(entries, s).
      case entries of None \<Rightarrow> Inr (Done LINBER_USER_MEMORY_ERROR, s)
      | Some entries \<Rightarrow> copy_status p ?sys entries (mutex_unlock_linber s)) = Inr (Done 0, s')"
    by (simp add: eq Let_def)
  then obtain oes t where L: "status_loop 0 (Services s) entries ?l = Inr (oes, t)"
    by (auto simp: bnd_eq_Inr)
  with fin obtain rep where rep: "oes = Some rep" by (cases oes) (simp_all add: codes)
  from fin have C: "copy_status p ?sys rep (mutex_unlock_linber t) = Inr (Done 0, s')"
    by (simp add: L rep)
  have rep': "rep = reported ?l (Services s) 0 entries" and k: "?k \<le> 10" and t: "only_umem ?l t"
    using loop [unfolded L rep ends_in_simps prod.case option.case] assms(3) es(2,3) by simp_all
  have cells: "umem t p = umem s p" "umem t (services sys) = umem s (services sys)"
    using status_loop_cells [OF L, of p] status_loop_cells [OF L, of "services sys"] sys es(1) by simp_all
  have tc: "Services_count t = Services_count s" using t by (auto simp: only_umem_def)
  have ne: "p \<noteq> services sys" using sys es(1) by auto
  have len: "length rep = 10" using es(2,3) by (simp add: rep')
  from C have s': "s' = (mutex_unlock_linber t)\<lparr>umem := (umem t)(p \<mapsto> USystem ?sys,
      services sys \<mapsto> UServices (take ?k rep @ drop ?k es))\<rparr>"
    using k es cells sys ne pos uc tc assms(3)
    by (auto simp: copy_status_def put_user_def put_services_def CHECK_MEMORY_ERROR_def codes
        mutex_unlock_linber_def split: if_splits)
  let ?es' = "take ?k rep @ drop ?k es"
  have "?es' ! i = (if i < ?k then report (the (sers s (Services s ! i))) (es ! i) else es ! i)"
    if "i < length es" for i
  proof (cases "i < ?k")
    case True
    then have "rep ! i = report (the (sers s (Services s ! i))) (es ! i)"
      using k es(2,3) by (simp add: rep' reported_nth)
    with True k len show ?thesis by (simp add: nth_append)
  next
    case False
    with that k len es(3) show ?thesis by (simp add: nth_append)
  qed
  moreover have "length ?es' = length es" using k len es(3) by simp
  ultimately show ?thesis
    using sys es(1) ne count
    by (intro exI [of _ sys] exI [of _ es] exI [of _ ?es']) (simp add: s')
qed

theorem status_reports_services_witness:
  "\<exists>s' es'. linber_get_system_status ex_env 110 (ex_status 101) = Inr (Done 0, s') \<and>
     umem s' 111 = Some (UServices es') \<and> st_Max_Working (es' ! 0) = 1"
proof -
  let ?s = "ex_status 101" and ?l = "(ex_status 101)\<lparr>linber_mutex := True\<rparr>"
  have alloc: "kmalloc_status ex_env" by (simp add: ex_env_def)
  have free: "\<not> linber_mutex ?s" and count: "Services_count ?s = 1"
    by (simp_all add: ex_status_def ex_idle_def) (simp add: ex_state_def ex_empty_def)
  have um: "umem ?s 101 = Some (UBytes [0, 0])" "umem ?s 111 = Some (UServices (ex_entries 101))"
    by (simp_all add: ex_status_def ex_umem_def)
  have node: "\<not> service_mutex ex_node" "cstr (uri ex_node) = [115]" "Max_Workers ex_node = 1"
    and len: "length (ex_entries 101) = 10"
    by (simp_all add: ex_node_def ex_entries_def)
  from um(1) have "copy_to_user 101 [115] ?l = Some (?l\<lparr>umem := (umem ?s)(101 \<mapsto> UBytes [115, 0])\<rparr>)"
    by (simp add: copy_to_user_def)
  with status_loop_step [of 0 ?l 7 ex_node "[]" "ex_entries 101"] node count len
  have "\<exists>es. length es = 10 \<and> status_loop 0 [7] (ex_entries 101) ?l =
      Inr (Some es, ?l\<lparr>umem := (umem ?s)(101 \<mapsto> UBytes [115, 0])\<rparr>)"
    by simp
  then obtain es where "length es = 10" "status_loop 0 [7] (ex_entries 101) ?l =
      Inr (Some es, ?l\<lparr>umem := (umem ?s)(101 \<mapsto> UBytes [115, 0])\<rparr>)" by blast
  with um(2) len count have "\<exists>s'. linber_get_system_status ex_env 110 ?s = Inr (Done 0, s')"
    by (simp add: status_eq [OF alloc ex_status_simps(4) free] copy_status_def put_user_def
        put_services_def mutex_unlock_linber_def CHECK_MEMORY_ERROR_def Let_def del: status_loop.simps)
  then obtain s' where r: "linber_get_system_status ex_env 110 ?s = Inr (Done 0, s')" by blast
  from status_reports_services [OF _ _ _ r] um(2) obtain es' where
    "umem s' 111 = Some (UServices es')" "es' ! 0 = report ex_node (ex_entries 101 ! 0)"
    using len by auto
  with r node(3) show ?thesis by (auto simp: report_def)
qed

end
