(* ===== verification/Service_API.thy ===== *)
theory Service_API
  imports Handlers "HOL-Library.Signed_Division"
begin

text \<open>
  The client library (libs/src/linber_service_api.c): what it puts into the parameter block
  of each ioctl and what it makes of the answer. The system calls and the C library are
  functions of a record; they work on a world 'w that holds the process's memory and the
  kernel. The program's own state is the descriptor linber_fd.
\<close>

section \<open>The process and the system below it\<close>

text \<open>The argument of an ioctl: the parameter block, or the address of a system_status.\<close>

datatype ioctl_arg = Params linber_service_struct | Status uaddr

text \<open>
  open of the device (a negative descriptor is a failure), ioctl with its return value and
  errno, the shared memory calls (shmat returns - 1 on failure), malloc (0 on failure),
  ftok (- 1 on failure), clock_gettime with seconds and nanoseconds, the reading of an int
  of the process's memory and the writing of bytes to it.
\<close>

record 'w os =
  sys_open :: "'w \<Rightarrow> int \<times> 'w"
  sys_close :: "int \<Rightarrow> 'w \<Rightarrow> 'w"
  sys_ioctl :: "int \<Rightarrow> ioctl_op \<Rightarrow> ioctl_arg \<Rightarrow> 'w \<Rightarrow> int \<times> int \<times> 'w"
  sys_shmget :: "key_t \<Rightarrow> u32 \<Rightarrow> bool \<Rightarrow> 'w \<Rightarrow> int \<times> 'w"
  sys_shmat :: "int \<Rightarrow> 'w \<Rightarrow> uaddr \<times> 'w"
  sys_shmctl_set :: "int \<Rightarrow> 'w \<Rightarrow> 'w"
  sys_shmctl_rmid :: "int \<Rightarrow> 'w \<Rightarrow> 'w"
  sys_shmdt :: "uaddr \<Rightarrow> 'w \<Rightarrow> 'w"
  sys_malloc :: "u64 \<Rightarrow> 'w \<Rightarrow> uaddr \<times> 'w"
  sys_free :: "uaddr \<Rightarrow> 'w \<Rightarrow> 'w"
  sys_ftok :: "bytes \<Rightarrow> u32 \<Rightarrow> 'w \<Rightarrow> key_t"
  sys_clock_gettime :: "'w \<Rightarrow> (u64 \<times> u64) option"
  sys_creat :: "bytes \<Rightarrow> 'w \<Rightarrow> 'w"
  sys_remove :: "uaddr \<Rightarrow> 'w \<Rightarrow> 'w"
  load_int :: "uaddr \<Rightarrow> 'w \<Rightarrow> u32"
  store_bytes :: "uaddr \<Rightarrow> bytes \<Rightarrow> 'w \<Rightarrow> 'w"
  uninitialised :: linber_service_struct

record 'w proc =
  linber_fd :: int
  world :: 'w

definition LINBER_ERROR_DEVICE_FILE :: int where [codes]: "LINBER_ERROR_DEVICE_FILE = - 1"


section \<open>The device\<close>

definition linber_init :: "'w os \<Rightarrow> 'w proc \<Rightarrow> int \<times> 'w proc" where
  "linber_init os p =
     (let (fd, w) = sys_open os (world p); p = p\<lparr>linber_fd := fd, world := w\<rparr>
      in if fd < 0 then (LINBER_ERROR_DEVICE_FILE, p) else (0, p))"

definition linber_exit :: "'w os \<Rightarrow> 'w proc \<Rightarrow> int \<times> 'w proc" where
  "linber_exit os p =
     (if linber_fd p < 0 then (LINBER_ERROR_DEVICE_FILE, p)
      else (0, p\<lparr>world := sys_close os (linber_fd p) (world p)\<rparr>))"

text \<open>The messages printed for some of the error codes are left out.\<close>

definition ioctl_send :: "'w os \<Rightarrow> ioctl_op \<Rightarrow> ioctl_arg \<Rightarrow> 'w proc \<Rightarrow> int \<times> 'w proc" where
  "ioctl_send os cmd param p =
     (let close_it = linber_fd p < 0;
          p = (if close_it then snd (linber_init os p) else p)
      in if linber_fd p < 0 then (LINBER_ERROR_DEVICE_FILE, p)
         else
           let (ret, errno, w) = sys_ioctl os (linber_fd p) cmd param (world p);
               p = p\<lparr>world := w\<rparr>;
               p = (if close_it then snd (linber_exit os p) else p)
           in (if ret < 0 then - errno else ret, p))"


section \<open>Shared memory\<close>

text \<open>The address of the memory (0 for NULL) and its id.\<close>

definition create_shm_from_key :: "'w os \<Rightarrow> key_t \<Rightarrow> u32 \<Rightarrow> 'w proc \<Rightarrow> (uaddr \<times> int) \<times> 'w proc" where
  "create_shm_from_key os key len p =
     (let (shmid, w) = sys_shmget os key len True (world p); p = p\<lparr>world := w\<rparr>
      in if 0 \<le> shmid then
           let p = p\<lparr>world := sys_shmctl_set os shmid (world p)\<rparr>;
               (shm, w) = sys_shmat os shmid (world p); p = p\<lparr>world := w\<rparr>
           in if shm = - 1 then ((0, shmid), p) else ((shm, shmid), p)
         else ((0, shmid), p))"

definition next_low_id :: "u32 \<Rightarrow> u32" where
  "next_low_id low_id = of_int (sint (low_id + 1) smod 255)"

definition create_shm_from_filepath ::
    "'w os \<Rightarrow> bytes \<Rightarrow> u32 \<Rightarrow> u32 \<Rightarrow> 'w proc \<Rightarrow> (uaddr \<times> key_t \<times> int option) \<times> 'w proc" where
  "create_shm_from_filepath os file_str low_id len p =
     (let key = sys_ftok os file_str (next_low_id low_id) (world p)
      in if key = - 1 then ((0, key, None), p)
         else let ((shm, shmid), p) = create_shm_from_key os key len p in ((shm, key, Some shmid), p))"

definition detach_shm :: "'w os \<Rightarrow> uaddr \<Rightarrow> 'w proc \<Rightarrow> 'w proc" where
  "detach_shm os addr p = p\<lparr>world := sys_shmdt os addr (world p)\<rparr>"

definition attach_shm_from_key :: "'w os \<Rightarrow> key_t \<Rightarrow> u32 \<Rightarrow> 'w proc \<Rightarrow> (uaddr \<times> int) \<times> 'w proc" where
  "attach_shm_from_key os key len p =
     (let (shmid, w) = sys_shmget os key len False (world p); p = p\<lparr>world := w\<rparr>
      in if shmid < 0 then ((0, shmid), p)
         else let (shm, w) = sys_shmat os shmid (world p); p = p\<lparr>world := w\<rparr>
              in if shm = - 1 then ((0, shmid), p) else ((shm, shmid), p))"



section \<open>Server operations\<close>

text \<open>
  The macros of linber_ioctl.h are not parenthesised and work in the type of their
  argument, here 32-bit unsigned.
\<close>

definition mSEC_TO_nSEX :: "u32 \<Rightarrow> u32" where
  "mSEC_TO_nSEX msec = msec * 1000000"

definition registration_params ::
    "u32 \<Rightarrow> u32 \<Rightarrow> uaddr \<Rightarrow> u32 \<Rightarrow> u32 \<Rightarrow> registration" where
  "registration_params exec_time max_workers service_token service_period Request_Per_Period =
     (let exec_ns = ucast (mSEC_TO_nSEX exec_time) :: u64;
          exec_ns = exec_ns + exec_ns * 5 div 100
      in \<lparr>reg_Max_Working = max_workers, ptr_service_token = service_token,
          reg_exec_time_ns = exec_ns,
          service_period_ns = mSEC_TO_nSEX service_period,
          service_budget_ns = ucast (exec_ns * ucast Request_Per_Period)\<rparr>)"

definition with_uri :: "uaddr \<Rightarrow> u32 \<Rightarrow> linber_service_struct \<Rightarrow> linber_service_struct" where
  "with_uri uri_ptr len_uri param = param\<lparr>service_uri_ptr := uri_ptr, service_uri_len := len_uri\<rparr>"

definition api_register_service :: "'w os \<Rightarrow> uaddr \<Rightarrow> u32 \<Rightarrow> u32 \<Rightarrow> u32 \<Rightarrow> uaddr \<Rightarrow> u32 \<Rightarrow> u32 \<Rightarrow>
    'w proc \<Rightarrow> int \<times> 'w proc" where
  "api_register_service os uri_ptr len_uri exec_time max_workers service_token service_period
     Request_Per_Period p =
     (let param = (with_uri uri_ptr len_uri (uninitialised os))\<lparr>op_registration :=
            registration_params exec_time max_workers service_token service_period Request_Per_Period\<rparr>
      in ioctl_send os IOCTL_REGISTER_SERVICE (Params param) p)"

text \<open>The decimal digits of a number below 100, as sprintf prints them.\<close>

definition decimal :: "u32 \<Rightarrow> bytes" where
  "decimal n = (if n < 10 then [48 + ucast n] else [48 + ucast (n div 10), 48 + ucast (n mod 10)])"

text \<open>The strings /tmp/ and _, in ASCII.\<close>

definition tmp_dir :: bytes where "tmp_dir = [47, 116, 109, 112, 47]"
definition underscore :: bytes where "underscore = [95]"

text \<open>
  The name of the worker's file, and the size of the buffer it is written to; the size
  counts the NUL of the URI only when uri_len does.
\<close>

definition worker_file :: "bytes \<Rightarrow> u32 \<Rightarrow> bytes" where
  "worker_file uri_str worker_id = tmp_dir @ cstr uri_str @ underscore @ decimal worker_id"

definition file_str_len :: "u32 \<Rightarrow> u32" where
  "file_str_len len_uri = len_uri + 8"

text \<open>
  The worker's id is read back from the caller's variable; the result is the return value
  and the file's buffer and name. A name longer than the buffer overflows it.
\<close>

definition api_register_service_worker :: "'w os \<Rightarrow> uaddr \<Rightarrow> bytes \<Rightarrow> u32 \<Rightarrow> u64 \<Rightarrow> uaddr \<Rightarrow>
    'w proc \<Rightarrow> fault + (int \<times> (uaddr \<times> bytes) option) \<times> 'w proc" where
  "api_register_service_worker os uri_ptr uri_str len_uri service_token worker_id p =
     (let param = (with_uri uri_ptr len_uri (uninitialised os))\<lparr>op_register_worker :=
            \<lparr>rw_service_token = service_token, ptr_worker_id = worker_id\<rparr>\<rparr>;
          (ret, p) = ioctl_send os IOCTL_REGISTER_SERVICE_WORKER (Params param) p
      in if ret = 0 then
           let wid = load_int os worker_id (world p)
           in if wid > 99 then Inr ((LINBER_KILL_WORKER, None), p)
              else
                let (file_str, w) = sys_malloc os (scast (file_str_len len_uri)) (world p);
                    p = p\<lparr>world := w\<rparr>;
                    name = worker_file uri_str wid
                in if file_str = 0 then Inl Null_deref
                   else if unat (file_str_len len_uri) < length name + 1 then Inl Buffer_overflow
                   else Inr ((ret, Some (file_str, name)), p\<lparr>world := sys_creat os name (world p)\<rparr>)
         else Inr ((ret, None), p))"

definition linber_destroy_worker :: "'w os \<Rightarrow> uaddr \<Rightarrow> 'w proc \<Rightarrow> 'w proc" where
  "linber_destroy_worker os file_str p =
     p\<lparr>world := sys_free os file_str (sys_remove os file_str (world p))\<rparr>"


section \<open>Client operations\<close>

text \<open>
  The absolute deadline: 0 asks for best effort, and a clock that cannot be read does as
  well. The seconds are converted in 64 bits, the milliseconds of the request in 32.
\<close>

definition SEC_TO_nSEC :: "u64 \<Rightarrow> u64" where
  "SEC_TO_nSEC sec = sec * 1000000000"

definition absolute_deadline :: "(u64 \<times> u64) option \<Rightarrow> u32 \<Rightarrow> u64" where
  "absolute_deadline now rel_deadline_ms =
     (let rel_deadline_ms = (if now = None then 0 else rel_deadline_ms)
      in if rel_deadline_ms = 0 then - 1
         else SEC_TO_nSEC (fst (the now)) + snd (the now) + ucast (mSEC_TO_nSEX rel_deadline_ms))"

text \<open>
  The end of the calls that fetch a response: the check after attach and malloc looks at
  the pointer to the result, which is never NULL. The result is the return value and the
  value stored through that pointer.
\<close>

definition fetch_response :: "'w os \<Rightarrow> linber_service_struct \<Rightarrow> int \<Rightarrow> 'w proc \<Rightarrow> (int \<times> uaddr) \<times> 'w proc" where
  "fetch_response os param ret p =
     (let rp = op_request param
      in if ret = LINBER_REQUEST_SUCCESS then
           let len = load_int os (ptr_response_len rp) (world p) in
           if load_int os (ptr_response_shm_mode rp) (world p) \<noteq> 0 then
             let key = load_int os (ptr_shm_response_key rp) (world p);
                 ((shm, shmid), p) = attach_shm_from_key os key len p
             in ((ret, shm), p\<lparr>world := sys_shmctl_rmid os shmid (world p)\<rparr>)
           else
             let (buf, w) = sys_malloc os (scast len) (world p);
                 param = param\<lparr>op_request := rp\<lparr>ptr_response := buf\<rparr>\<rparr>;
                 (ret, p) = ioctl_send os IOCTL_REQUEST_SERVICE_GET_RESPONSE (Params param)
                              (p\<lparr>world := w\<rparr>)
             in ((ret, buf), p)
         else ((ret, 0), p))"

text \<open>
  The addresses of the locals token and response_key are arguments, next to the pointers
  of the caller.
\<close>

record result_pointers =
  at_token :: uaddr
  at_response_key :: uaddr
  at_response_len :: uaddr
  at_response_shm_mode :: uaddr

definition blocking_params :: "linber_service_struct \<Rightarrow> result_pointers \<Rightarrow> u64 \<Rightarrow> bool \<Rightarrow> u64 \<Rightarrow> u32 \<Rightarrow>
    linber_service_struct" where
  "blocking_params param ptrs deadline shm req_ptr req_len =
     param\<lparr>op_request := (op_request param)\<lparr>blocking := 1, rp_abs_deadline_ns := deadline,
       ptr_token := at_token ptrs, status := 0, rp_request_len := req_len,
       rp_request_shm_mode := (if shm then 1 else 0), rp_request := req_ptr,
       ptr_response_len := at_response_len ptrs, ptr_response_shm_mode := at_response_shm_mode ptrs,
       ptr_shm_response_key := at_response_key ptrs\<rparr>\<rparr>"

definition api_request_service :: "'w os \<Rightarrow> result_pointers \<Rightarrow> uaddr \<Rightarrow> u32 \<Rightarrow> u32 \<Rightarrow> uaddr \<Rightarrow> u32 \<Rightarrow>
    'w proc \<Rightarrow> (int \<times> uaddr) \<times> 'w proc" where
  "api_request_service os ptrs uri_ptr len_uri rel_deadline_ms req_ptr req_len p =
     (let deadline = absolute_deadline (sys_clock_gettime os (world p)) rel_deadline_ms;
          param = blocking_params (with_uri uri_ptr len_uri (uninitialised os)) ptrs deadline False
                    req_ptr req_len;
          (ret, p) = ioctl_send os IOCTL_REQUEST_SERVICE (Params param) p
      in fetch_response os param ret p)"

definition api_request_service_shm :: "'w os \<Rightarrow> result_pointers \<Rightarrow> uaddr \<Rightarrow> u32 \<Rightarrow> u32 \<Rightarrow> key_t \<Rightarrow> u32 \<Rightarrow>
    'w proc \<Rightarrow> (int \<times> uaddr) \<times> 'w proc" where
  "api_request_service_shm os ptrs uri_ptr len_uri rel_deadline_ms request_key req_len p =
     (let deadline = absolute_deadline (sys_clock_gettime os (world p)) rel_deadline_ms;
          param = with_uri uri_ptr len_uri (uninitialised os);
          param = blocking_params param ptrs deadline True
                    (set_shm_key request_key (rp_request (op_request param))) req_len;
          (ret, p) = ioctl_send os IOCTL_REQUEST_SERVICE (Params param) p
      in fetch_response os param ret p)"

text \<open>The calls that do not block return the deadline too, for the later search.\<close>

definition queueing_params :: "linber_service_struct \<Rightarrow> uaddr \<Rightarrow> u64 \<Rightarrow> bool \<Rightarrow> u64 \<Rightarrow> u32 \<Rightarrow>
    linber_service_struct" where
  "queueing_params param at_tok deadline shm req_ptr req_len =
     param\<lparr>op_request := (op_request param)\<lparr>blocking := 0, rp_abs_deadline_ns := deadline,
       ptr_token := at_tok, status := 0, rp_request_len := req_len,
       rp_request_shm_mode := (if shm then 1 else 0), rp_request := req_ptr\<rparr>\<rparr>"

definition api_request_service_no_blocking :: "'w os \<Rightarrow> uaddr \<Rightarrow> u32 \<Rightarrow> u32 \<Rightarrow> uaddr \<Rightarrow> u32 \<Rightarrow> uaddr \<Rightarrow>
    'w proc \<Rightarrow> (int \<times> u64) \<times> 'w proc" where
  "api_request_service_no_blocking os uri_ptr len_uri rel_deadline_ms req_ptr req_len at_tok p =
     (let deadline = absolute_deadline (sys_clock_gettime os (world p)) rel_deadline_ms;
          param = queueing_params (with_uri uri_ptr len_uri (uninitialised os)) at_tok deadline False
                    req_ptr req_len;
          (ret, p) = ioctl_send os IOCTL_REQUEST_SERVICE (Params param) p
      in ((ret, deadline), p))"

definition api_request_service_no_blocking_shm :: "'w os \<Rightarrow> uaddr \<Rightarrow> u32 \<Rightarrow> u32 \<Rightarrow> key_t \<Rightarrow> u32 \<Rightarrow> uaddr \<Rightarrow>
    'w proc \<Rightarrow> (int \<times> u64) \<times> 'w proc" where
  "api_request_service_no_blocking_shm os uri_ptr len_uri rel_deadline_ms request_key req_len
     at_tok p =
     (let deadline = absolute_deadline (sys_clock_gettime os (world p)) rel_deadline_ms;
          param = with_uri uri_ptr len_uri (uninitialised os);
          param = queueing_params param at_tok deadline True
                    (set_shm_key request_key (rp_request (op_request param))) req_len;
          (ret, p) = ioctl_send os IOCTL_REQUEST_SERVICE (Params param) p
      in ((ret, deadline), p))"

definition api_request_service_get_response :: "'w os \<Rightarrow> result_pointers \<Rightarrow> uaddr \<Rightarrow> u32 \<Rightarrow> u64 \<Rightarrow>
    'w proc \<Rightarrow> (int \<times> uaddr) \<times> 'w proc" where
  "api_request_service_get_response os ptrs uri_ptr len_uri abs_deadline p =
     (let param = with_uri uri_ptr len_uri (uninitialised os);
          param = param\<lparr>op_request := (op_request param)\<lparr>ptr_token := at_token ptrs,
            rp_abs_deadline_ns := abs_deadline, status := 1,
            ptr_response_len := at_response_len ptrs, ptr_response_shm_mode := at_response_shm_mode ptrs,
            ptr_shm_response_key := at_response_key ptrs\<rparr>\<rparr>;
          (ret, p) = ioctl_send os IOCTL_REQUEST_SERVICE (Params param) p
      in fetch_response os param ret p)"

definition release_memory :: "'w os \<Rightarrow> uaddr \<Rightarrow> bool \<Rightarrow> 'w proc \<Rightarrow> 'w proc" where
  "release_memory os addr shm p =
     (if shm then detach_shm os addr p else p\<lparr>world := sys_free os addr (world p)\<rparr>)"

definition linber_request_service_clean :: "'w os \<Rightarrow> uaddr \<Rightarrow> u32 \<Rightarrow> 'w proc \<Rightarrow> 'w proc" where
  "linber_request_service_clean os resp_ptr shm_response_mode p =
     release_memory os resp_ptr (shm_response_mode \<noteq> 0) p"


section \<open>Worker operations\<close>

text \<open>The result is the return value and the value stored through the pointer request.\<close>

definition linber_start_job_service :: "'w os \<Rightarrow> uaddr \<Rightarrow> uaddr \<Rightarrow> u32 \<Rightarrow> u64 \<Rightarrow> u32 \<Rightarrow> uaddr \<Rightarrow> uaddr \<Rightarrow>
    uaddr \<Rightarrow> 'w proc \<Rightarrow> (int \<times> uaddr) \<times> 'w proc" where
  "linber_start_job_service os at_request_key uri_ptr len_uri service_token worker_id req_ptr
     req_len req_shm p =
     (let sj = \<lparr>sj_worker_id = worker_id, sj_service_token = service_token,
            ptr_request_len = req_len, ptr_request_shm_mode = req_shm,
            sj_data = at_request_key\<rparr>;
          param = (with_uri uri_ptr len_uri (uninitialised os))\<lparr>op_start_job := sj\<rparr>;
          (ret, p) = ioctl_send os IOCTL_START_JOB_SERVICE (Params param) p
      in if ret = 0 then
           let len = load_int os req_len (world p);
               ((ret, req), p) =
                 (if load_int os req_shm (world p) \<noteq> 0 then
                    let ((shm, shmid), p) =
                          attach_shm_from_key os (load_int os at_request_key (world p)) len p
                    in ((ret, shm), p\<lparr>world := sys_shmctl_rmid os shmid (world p)\<rparr>)
                  else
                    let (buf, w) = sys_malloc os (scast len) (world p);
                        (ret, p) = ioctl_send os IOCTL_START_JOB_GET_REQUEST_SERVICE
                          (Params (param\<lparr>op_start_job := sj\<lparr>sj_data := buf\<rparr>\<rparr>)) (p\<lparr>world := w\<rparr>)
                    in ((ret, buf), p))
           in if req = 0 then ((LINBER_SERVICE_SKIP_JOB, req), p) else ((ret, req), p)
         else ((ret, req_ptr), p))"

definition linber_end_job_service :: "'w os \<Rightarrow> uaddr \<Rightarrow> u32 \<Rightarrow> u64 \<Rightarrow> u32 \<Rightarrow> uaddr \<Rightarrow> u32 \<Rightarrow> uaddr \<Rightarrow>
    u32 \<Rightarrow> 'w proc \<Rightarrow> int \<times> 'w proc" where
  "linber_end_job_service os uri_ptr len_uri service_token worker_id req_ptr req_shm
     resp_ptr resp_len p =
     (let param = (with_uri uri_ptr len_uri (uninitialised os))\<lparr>op_end_job :=
            \<lparr>ej_worker_id = worker_id, ej_service_token = service_token,
             ej_response_len = resp_len, ej_response_shm_mode = 0, ej_response = resp_ptr\<rparr>\<rparr>;
          (ret, p) = ioctl_send os IOCTL_END_JOB_SERVICE (Params param) p
      in (ret, release_memory os req_ptr (req_shm \<noteq> 0) p))"

definition linber_end_job_service_shm :: "'w os \<Rightarrow> uaddr \<Rightarrow> u32 \<Rightarrow> u64 \<Rightarrow> u32 \<Rightarrow> uaddr \<Rightarrow> u32 \<Rightarrow> u32 \<Rightarrow>
    key_t \<Rightarrow> 'w proc \<Rightarrow> int \<times> 'w proc" where
  "linber_end_job_service_shm os uri_ptr len_uri service_token worker_id req_ptr request_shm
     resp_len response_key p =
     (let param = with_uri uri_ptr len_uri (uninitialised os);
          param = param\<lparr>op_end_job := \<lparr>ej_worker_id = worker_id, ej_service_token = service_token,
             ej_response_len = resp_len, ej_response_shm_mode = 1,
             ej_response = set_shm_key response_key (ej_response (op_end_job param))\<rparr>\<rparr>;
          (ret, p) = ioctl_send os IOCTL_END_JOB_SERVICE (Params param) p
      in (ret, release_memory os req_ptr (request_shm \<noteq> 0) p))"

definition api_destroy_service :: "'w os \<Rightarrow> uaddr \<Rightarrow> u32 \<Rightarrow> u64 \<Rightarrow> 'w proc \<Rightarrow> int \<times> 'w proc" where
  "api_destroy_service os uri_ptr len_uri service_token p =
     ioctl_send os IOCTL_DESTROY_SERVICE (Params ((with_uri uri_ptr len_uri (uninitialised os))
       \<lparr>ds_service_token := service_token\<rparr>)) p"

definition linber_system_status :: "'w os \<Rightarrow> uaddr \<Rightarrow> 'w proc \<Rightarrow> int \<times> 'w proc" where
  "linber_system_status os system p = ioctl_send os IOCTL_SYSTEM_STATUS (Status system) p"

end
