(* ===== verification/Service_Classes.thy ===== *)
theory Service_Classes
  imports Service_API
begin

text \<open>
  The C++ classes over the library (libs/src/linberServiceClient.cpp and
  linberServiceWorker.cpp): the client as a state machine over its two state members, and
  the loop of a worker's thread.
\<close>

section \<open>linberServiceClient\<close>

text \<open>
  The members token, response_len and response_shm_mode are written through pointers, so
  they live in the process's memory, at addresses of a result_pointers record; the locals
  of linber_sendRequest_shm that hide them are another such record. low_id is the static
  variable of linber_create_shm.
\<close>

record client =
  cl_uri :: uaddr
  cl_uri_len :: u32
  cl_request_len :: u32
  cl_request :: uaddr
  cl_response :: uaddr
  cl_request_shm_key :: key_t
  cl_request_shm_mode :: bool
  cl_abs_deadline :: u64
  request_state :: int
  request_shm_state :: int
  cl_rel_deadline :: u32
  cl_low_id :: u32

text \<open>The fields the constructor leaves unset keep what the memory held.\<close>

definition linberServiceClient :: "'w os \<Rightarrow> uaddr \<Rightarrow> u32 \<Rightarrow> client \<Rightarrow> 'w proc \<Rightarrow> client \<times> 'w proc" where
  "linberServiceClient os uri_ptr len_uri memory p =
     (memory\<lparr>cl_uri := uri_ptr, cl_uri_len := len_uri, cl_request := 0, cl_response := 0,
             cl_request_shm_mode := False, request_state := 0, request_shm_state := - 1\<rparr>,
      snd (linber_init os p))"

definition linberServiceClient_destructor :: "'w os \<Rightarrow> 'w proc \<Rightarrow> 'w proc" where
  "linberServiceClient_destructor os p = snd (linber_exit os p)"

text \<open>A blocking call also hands out the response and its length.\<close>

definition linber_sendRequest :: "'w os \<Rightarrow> result_pointers \<Rightarrow> uaddr \<Rightarrow> u32 \<Rightarrow> bool \<Rightarrow> u32 \<Rightarrow> client \<Rightarrow>
    'w proc \<Rightarrow> (uaddr \<times> u32) option \<times> client \<times> 'w proc" where
  "linber_sendRequest os members req req_len is_blocking rel c p =
     (if request_state c = 0 \<and> request_shm_state c = - 1 then
        let c = c\<lparr>cl_request_shm_mode := False, cl_request := req, cl_request_len := req_len,
                  cl_rel_deadline := rel\<rparr>
        in if is_blocking then
             let ((ret, resp), p) = api_request_service os members (cl_uri c) (cl_uri_len c) rel req req_len p
             in (Some (resp, load_int os (at_response_len members) (world p)),
                 c\<lparr>cl_response := resp, request_state := 2\<rparr>, p)
           else
             let ((ret, deadline), p) = api_request_service_no_blocking os (cl_uri c) (cl_uri_len c) rel
                   req req_len (at_token members) p
             in (None, c\<lparr>cl_abs_deadline := deadline, request_state := 1\<rparr>, p)
      else (None, c, p))"

text \<open>The current directory, as the path of the key; the result is the address handed out.\<close>

definition dot :: bytes where "dot = [46]"

definition linber_create_shm :: "'w os \<Rightarrow> u32 \<Rightarrow> client \<Rightarrow> 'w proc \<Rightarrow> uaddr option \<times> client \<times> 'w proc" where
  "linber_create_shm os req_len c p =
     (if request_state c = 0 \<and> request_shm_state c = - 1 then
        let ((shm, key, shmid), p) = create_shm_from_filepath os dot (cl_low_id c) req_len p;
            c = c\<lparr>cl_low_id := cl_low_id c + 1\<rparr>
        in if shm = 0 then (Some shm, c, p)
           else (Some shm, c\<lparr>cl_request_shm_mode := True, cl_request := shm, cl_request_len := req_len,
                            cl_request_shm_key := key, request_shm_state := 0\<rparr>, p)
      else (None, c, p))"

text \<open>The locals hide the members token, response, response_len and response_shm_mode.\<close>

definition linber_sendRequest_shm :: "'w os \<Rightarrow> result_pointers \<Rightarrow> bool \<Rightarrow> u32 \<Rightarrow> client \<Rightarrow> 'w proc \<Rightarrow>
    (uaddr \<times> u32) option \<times> client \<times> 'w proc" where
  "linber_sendRequest_shm os locals is_blocking rel c p =
     (if request_shm_state c = 0 then
        let c = c\<lparr>cl_rel_deadline := rel\<rparr>
        in if is_blocking then
             let ((ret, resp), p) = api_request_service_shm os locals (cl_uri c) (cl_uri_len c) rel
                   (cl_request_shm_key c) (cl_request_len c) p
             in (Some (resp, load_int os (at_response_len locals) (world p)),
                 c\<lparr>request_shm_state := 2\<rparr>, p)
           else
             let ((ret, deadline), p) = api_request_service_no_blocking_shm os (cl_uri c) (cl_uri_len c)
                   rel (cl_request_shm_key c) (cl_request_len c) (at_token locals) p
             in (None, c\<lparr>cl_abs_deadline := deadline, request_shm_state := 1\<rparr>, p)
      else (None, c, p))"

text \<open>The result is 0 where the C++ code returns NULL.\<close>

definition linber_get_response :: "'w os \<Rightarrow> result_pointers \<Rightarrow> client \<Rightarrow> 'w proc \<Rightarrow>
    uaddr \<times> client \<times> 'w proc" where
  "linber_get_response os members c p =
     (if request_state c = 1 \<or> request_shm_state c = 1 then
        let ((ret, resp), p) = api_request_service_get_response os members (cl_uri c) (cl_uri_len c)
              (cl_abs_deadline c) p;
            c = c\<lparr>cl_response := resp\<rparr>
        in if ret < 0 then (0, c, p)
           else if request_state c = 1 then (cl_request c, c\<lparr>request_state := 2\<rparr>, p)
           else (cl_request c, c\<lparr>request_shm_state := 2\<rparr>, p)
      else (0, c, p))"

definition linber_end_operation :: "'w os \<Rightarrow> result_pointers \<Rightarrow> client \<Rightarrow> 'w proc \<Rightarrow> client \<times> 'w proc" where
  "linber_end_operation os members c p =
     (let shm = load_int os (at_response_shm_mode members) (world p)
      in if request_state c = 1 \<or> request_shm_state c = 0 \<or> request_shm_state c = 1 then
           let c = c\<lparr>cl_response := 0\<rparr>;
               p = linber_request_service_clean os (cl_response c) shm p
           in (c\<lparr>request_state := 0, request_shm_state := - 1\<rparr>, p)
         else if request_state c = 2 \<or> request_shm_state c = 2 then
           let p = linber_request_service_clean os (cl_response c) shm p
           in (c\<lparr>cl_response := 0, request_state := 0, request_shm_state := - 1\<rparr>, p)
         else (c, p))"


section \<open>linberServiceWorker\<close>

text \<open>
  The members of a worker; the request's length and mode are written through pointers.
  execute_job is the virtual method a service overrides. wk_joinable is the state of the
  std::thread member.
\<close>

record worker =
  wk_uri :: uaddr
  wk_file :: uaddr
  wk_uri_len :: u32
  wk_token :: u64
  wk_id :: u32
  wk_job_num :: u32
  wk_joinable :: bool
  wk_alive :: bool
  wk_request :: uaddr
  wk_response :: uaddr
  wk_response_len :: u32

record job_pointers =
  at_request_key :: uaddr
  at_request_len :: uaddr
  at_request_shm_mode :: uaddr

text \<open>One turn of the loop of worker_job; the boolean tells whether the loop goes on.\<close>

definition worker_turn :: "'w os \<Rightarrow> job_pointers \<Rightarrow> (worker \<Rightarrow> 'w \<Rightarrow> worker \<times> 'w) \<Rightarrow>
    (uaddr \<Rightarrow> 'w \<Rightarrow> 'w) \<Rightarrow> worker \<Rightarrow> 'w proc \<Rightarrow> bool \<times> worker \<times> 'w proc" where
  "worker_turn os ptrs execute_job clear_int wk p =
     (let p = p\<lparr>world := clear_int (at_request_shm_mode ptrs) (world p)\<rparr>;
          wk = wk\<lparr>wk_response := 0, wk_request := 0\<rparr>;
          ((ret, req), p) = linber_start_job_service os (at_request_key ptrs) (wk_uri wk) (wk_uri_len wk)
             (wk_token wk) (wk_id wk) (wk_request wk) (at_request_len ptrs) (at_request_shm_mode ptrs) p;
          wk = wk\<lparr>wk_request := req\<rparr>
      in if ret < 0 then (False, wk, p)
         else
           let (wk, p) = (if ret \<noteq> LINBER_SERVICE_SKIP_JOB
                          then let (wk, w) = execute_job wk (world p) in (wk, p\<lparr>world := w\<rparr>)
                          else (wk, p));
               (ret, p) = linber_end_job_service os (wk_uri wk) (wk_uri_len wk) (wk_token wk) (wk_id wk)
                  (wk_request wk) (load_int os (at_request_shm_mode ptrs) (world p)) (wk_response wk)
                  (wk_response_len wk) p;
               p = p\<lparr>world := sys_free os (wk_response wk) (world p)\<rparr>
           in (True, wk, p))"

text \<open>
  The loop: it may go on for as long as the worker is alive, so it is a partial function.
\<close>

partial_function (option) worker_loop :: "'w os \<Rightarrow> job_pointers \<Rightarrow> (worker \<Rightarrow> 'w \<Rightarrow> worker \<times> 'w) \<Rightarrow>
    (uaddr \<Rightarrow> 'w \<Rightarrow> 'w) \<Rightarrow> worker \<Rightarrow> 'w proc \<Rightarrow> (worker \<times> 'w proc) option" where
  "worker_loop os ptrs execute_job clear_int wk p =
     (if \<not> wk_alive wk then Some (wk, p)
      else
        let (go_on, wk', p') = worker_turn os ptrs execute_job clear_int wk p
        in if go_on then worker_loop os ptrs execute_job clear_int wk' p' else Some (wk', p'))"

text \<open>
  The thread from its start: the worker registers, and its id is read from the member the
  kernel wrote. The fault is the overflow of the worker's file name.
\<close>

definition worker_job :: "'w os \<Rightarrow> job_pointers \<Rightarrow> (worker \<Rightarrow> 'w \<Rightarrow> worker \<times> 'w) \<Rightarrow> (uaddr \<Rightarrow> 'w \<Rightarrow> 'w) \<Rightarrow>
    uaddr \<Rightarrow> bytes \<Rightarrow> worker \<Rightarrow> 'w proc \<Rightarrow> (fault + worker \<times> 'w proc) option" where
  "worker_job os ptrs execute_job clear_int at_id uri_str wk p =
     (case api_register_service_worker os (wk_uri wk) uri_str (wk_uri_len wk) (wk_token wk) at_id p of
        Inl e \<Rightarrow> Some (Inl e)
      | Inr ((ret, file), p) \<Rightarrow>
          let wk = wk\<lparr>wk_id := load_int os at_id (world p)\<rparr>;
              wk = (case file of None \<Rightarrow> wk | Some (file_str, name) \<Rightarrow> wk\<lparr>wk_file := file_str\<rparr>);
              wk = (if ret < 0 then wk\<lparr>wk_alive := False\<rparr> else wk)
          in map_option Inr (worker_loop os ptrs execute_job clear_int wk p))"

text \<open>
  The constructor copies the URI, with two bytes more than its characters, and starts the
  thread. The members it does not set keep what the memory held, file_str among them.
\<close>

definition linberServiceWorker :: "'w os \<Rightarrow> bytes \<Rightarrow> u64 \<Rightarrow> worker \<Rightarrow> 'w proc \<Rightarrow>
    fault + worker \<times> 'w proc" where
  "linberServiceWorker os uri_str tok memory p =
     (let len = of_nat (strlen uri_str) + 1;
          (buf, w) = sys_malloc os (scast (len + 1)) (world p)
      in if buf = 0 then Inl Null_deref
         else
           let w = store_bytes os (buf + scast (len - 1)) [0] w;
               w = store_bytes os (buf + scast len) [0] w;
               w = store_bytes os buf (cstr uri_str @ [0]) w;
               (ret, p) = linber_init os (p\<lparr>world := w\<rparr>)
           in Inr (memory\<lparr>wk_token := tok, wk_uri_len := len, wk_uri := buf, wk_job_num := 0,
                     wk_request := 0, wk_response := 0, wk_alive := True, wk_joinable := True\<rparr>, p))"

text \<open>
  Waiting for the thread: what the thread does is worker_job, which may never return. A
  thread that was joined is not joined again.
\<close>

definition join_worker :: "'w os \<Rightarrow> job_pointers \<Rightarrow> (worker \<Rightarrow> 'w \<Rightarrow> worker \<times> 'w) \<Rightarrow> (uaddr \<Rightarrow> 'w \<Rightarrow> 'w) \<Rightarrow>
    uaddr \<Rightarrow> bytes \<Rightarrow> worker \<Rightarrow> 'w proc \<Rightarrow> (fault + worker \<times> 'w proc) option" where
  "join_worker os ptrs execute_job clear_int at_id uri_str wk p =
     (if wk_joinable wk
      then map_option (\<lambda>r. bnd r (\<lambda>(wk, p). Inr (wk\<lparr>wk_joinable := False\<rparr>, p)))
             (worker_job os ptrs execute_job clear_int at_id uri_str wk p)
      else Some (Inr (wk, p)))"

definition terminate_worker :: "worker \<Rightarrow> worker" where
  "terminate_worker wk = wk\<lparr>wk_alive := False\<rparr>"

text \<open>
  The destructor; the member thread_worker is destroyed after its body, which ends the
  whole process (None) if nobody joined the thread.
\<close>

definition linberServiceWorker_destructor :: "'w os \<Rightarrow> worker \<Rightarrow> 'w proc \<Rightarrow> (worker \<times> 'w proc) option" where
  "linberServiceWorker_destructor os wk p =
     (let p = linber_destroy_worker os (wk_file wk) p;
          p = p\<lparr>world := sys_free os (wk_uri wk) (world p)\<rparr>
      in if wk_joinable wk then None else Some (wk\<lparr>wk_uri := 0\<rparr>, p))"

text \<open>The method a service that does not override it gets: it prints a line.\<close>

definition default_execute_job :: "worker \<Rightarrow> 'w \<Rightarrow> worker \<times> 'w" where
  "default_execute_job wk w = (wk, w)"

end
