(* ===== verification/API_Props.thy ===== *)
theory API_Props
  imports Service_Classes
begin

text \<open>
  What the client library passes on and what it loses: return codes, deadlines, the
  parameters of a registration, file names, and the states of the C++ client.
\<close>

section \<open>Return codes\<close>

text \<open>The convention of the C library: a negative result becomes - 1 and errno.\<close>

definition libc_result :: "int \<Rightarrow> int \<Rightarrow> int \<times> int" where
  "libc_result r errno = (if r < 0 then (- 1, - r) else (r, errno))"

lemma ioctl_send_open:
  assumes "0 \<le> linber_fd p" and "sys_ioctl os (linber_fd p) cmd param (world p) = (ret, errno, w)"
  shows "ioctl_send os cmd param p = (if ret < 0 then - errno else ret, p\<lparr>world := w\<rparr>)"
  using assms by (simp add: ioctl_send_def Let_def)


section \<open>Deadlines\<close>

lemma unat_mSEC: "unat (mSEC_TO_nSEX ms) = unat ms * 1000000 mod 2 ^ 32"
  by (simp add: mSEC_TO_nSEX_def unat_word_ariths)

lemma unat_mSEC_small: "unat ms \<le> 4294 \<Longrightarrow> unat (mSEC_TO_nSEX ms) = unat ms * 1000000"
  by (simp add: unat_mSEC)

lemma unat_plus_no_wrap:
  "unat a + unat b < 2 ^ 64 \<Longrightarrow> unat (a + b) = unat a + unat b" for a b :: u64
  by (simp add: unat_word_ariths)

lemma unat_ucast_u32: "unat (ucast x :: u64) = unat x" for x :: u32
proof -
  have "unat x < 2 ^ 32" using unsigned_less [of x, where ?'a = nat] by simp
  then show ?thesis by (simp add: unsigned_ucast_eq take_bit_nat_eq_self)
qed

lemma int_bound_63: "k < 2 ^ 63 \<Longrightarrow> int k < 2 ^ 63" "k < 2 ^ 63 - 1 \<Longrightarrow> int k < 2 ^ 63 - 1"
  by simp_all

lemma sint_small_u64:
  fixes x :: u64
  assumes "unat x < 2 ^ 63"
  shows "sint x = int (unat x)"
proof -
  have "uint x = int (unat x)" by simp
  then have "sint x = signed_take_bit 63 (int (unat x))" by (simp add: sint_uint)
  also have "\<dots> = int (unat x)" by (rule signed_take_bit_int_eq_self [OF _ int_bound_63(1) [OF assms]]) (rule order_trans [of _ 0], simp_all)
  finally show ?thesis .
qed

lemma unat_absolute_deadline:
  assumes "ms \<noteq> 0" and "unat sec * 1000000000 + unat nsec < 2 ^ 63"
  shows "unat (absolute_deadline (Some (sec, nsec)) ms) =
    unat sec * 1000000000 + unat nsec + unat ms * 1000000 mod 2 ^ 32"
proof -
  have sec: "unat (SEC_TO_nSEC sec) = unat sec * 1000000000"
    using assms(2) by (simp add: SEC_TO_nSEC_def unat_word_ariths)
  then have now: "unat (SEC_TO_nSEC sec + nsec) = unat sec * 1000000000 + unat nsec"
    using assms(2) by (simp add: unat_plus_no_wrap)
  have "unat (ucast (mSEC_TO_nSEX ms) :: u64) = unat ms * 1000000 mod 2 ^ 32"
    by (simp only: unat_ucast_u32 unat_mSEC)
  moreover have "unat ms * 1000000 mod 2 ^ 32 < (2 :: nat) ^ 32" by simp
  ultimately show ?thesis
    using assms now by (simp add: absolute_deadline_def unat_plus_no_wrap)
qed


text \<open>
  C29: The deadline a client asks for: 0, or a clock that cannot be read, gives best
  effort; otherwise the deadline is valid and lies the wanted milliseconds after now,
  exactly when these are at most 4294, for the conversion to nanoseconds wraps at 2^32.
\<close>

theorem deadline_exact_up_to_4294_ms:
  fixes sec nsec :: u64 and ms :: u32
  assumes "unat sec * 1000000000 + unat nsec < 2 ^ 62"
  defines "d \<equiv> absolute_deadline (Some (sec, nsec)) ms"
  shows "absolute_deadline None ms = best_effort \<and> absolute_deadline (Some (sec, nsec)) 0 = best_effort \<and>
    (ms \<noteq> 0 \<longrightarrow> valid_deadline d \<and> d \<noteq> best_effort \<and>
       (unat d = unat sec * 1000000000 + unat nsec + unat ms * 1000000 \<longleftrightarrow> unat ms \<le> 4294))"
proof -
  have "valid_deadline d \<and> d \<noteq> best_effort \<and>
    (unat d = unat sec * 1000000000 + unat nsec + unat ms * 1000000 \<longleftrightarrow> unat ms \<le> 4294)" if "ms \<noteq> 0"
  proof -
    have u: "unat d = unat sec * 1000000000 + unat nsec + unat ms * 1000000 mod 2 ^ 32"
      unfolding d_def by (rule unat_absolute_deadline [OF that]) (use assms in simp)
    have "unat ms * 1000000 mod 2 ^ 32 < (2 :: nat) ^ 32" by simp
    with u assms(1) have lt: "unat d < 2 ^ 63 - 1" by simp
    then have s: "sint d = int (unat d)"
      by (intro sint_small_u64) simp
    from lt have "int (unat d) < 2 ^ 63 - 1" by (rule int_bound_63(2))
    moreover have "- 1 \<le> int (unat d)" by (rule order_trans [of _ 0]) simp_all
    ultimately have "valid_deadline d" unfolding valid_deadline_def s by blast
    moreover from lt have "d \<noteq> best_effort"
      by (auto simp: best_effort_def unsigned_minus_1_eq_mask mask_eq_exp_minus_1)
    moreover have "unat ms * 1000000 mod 2 ^ 32 = unat ms * 1000000 \<longleftrightarrow> unat ms \<le> 4294"
    proof
      assume "unat ms * 1000000 mod 2 ^ 32 = unat ms * 1000000"
      then have "unat ms * 1000000 < 2 ^ 32" using mod_less_divisor [of "2 ^ 32 :: nat" "unat ms * 1000000"] by simp
      then show "unat ms \<le> 4294" by simp
    qed simp
    ultimately show ?thesis using u by simp
  qed
  then show ?thesis by (simp add: absolute_deadline_def best_effort_def)
qed

theorem deadline_exact_up_to_4294_ms_witness:
  "unat (absolute_deadline (Some (1, 5)) 4294) = 5294000005 \<and>
   unat (absolute_deadline (Some (1, 5)) 4295) \<noteq> 5295000005"
  using deadline_exact_up_to_4294_ms [of 1 5 4294] deadline_exact_up_to_4294_ms [of 1 5 4295] by simp


section \<open>The descriptor\<close>


text \<open>A system for the witnesses: the world counts the open descriptors; ioctl returns r.\<close>

definition ex_params :: linber_service_struct where
  "ex_params = \<lparr>service_uri_ptr = 0, service_uri_len = 0,
     op_registration = \<lparr>reg_Max_Working = 0, ptr_service_token = 0, reg_exec_time_ns = 0,
       service_period_ns = 0, service_budget_ns = 0\<rparr>,
     op_register_worker = \<lparr>rw_service_token = 0, ptr_worker_id = 0\<rparr>,
     op_request = \<lparr>blocking = 0, rp_request_shm_mode = 0, ptr_response_shm_mode = 0, status = 0,
       rp_abs_deadline_ns = 0, ptr_token = 0, rp_request_len = 0, ptr_response_len = 0, rp_request = 0,
       ptr_response = 0, ptr_shm_response_key = 0\<rparr>,
     op_start_job = \<lparr>sj_worker_id = 0, sj_service_token = 0, ptr_request_len = 0,
       ptr_request_shm_mode = 0, sj_data = 0\<rparr>,
     op_end_job = \<lparr>ej_worker_id = 0, ej_service_token = 0, ej_response_len = 0,
       ej_response_shm_mode = 0, ej_response = 0\<rparr>,
     ds_service_token = 0\<rparr>"

definition ex_os :: "int \<Rightarrow> nat os" where
  "ex_os r = \<lparr>sys_open = (\<lambda>w. (3, Suc w)), sys_close = (\<lambda>fd w. w - 1),
     sys_ioctl = (\<lambda>fd cmd param w. (fst (libc_result r 0), snd (libc_result r 0), w)),
     sys_shmget = (\<lambda>key len create w. (- 1, w)), sys_shmat = (\<lambda>id w. (- 1, w)),
     sys_shmctl_set = (\<lambda>id w. w), sys_shmctl_rmid = (\<lambda>id w. w), sys_shmdt = (\<lambda>a w. w),
     sys_malloc = (\<lambda>n w. (64, w)), sys_free = (\<lambda>a w. w), sys_ftok = (\<lambda>f i w. 1),
     sys_clock_gettime = (\<lambda>w. Some (1, 5)), sys_creat = (\<lambda>f w. w), sys_remove = (\<lambda>a w. w),
     load_int = (\<lambda>a w. if a = 9 then 10 else 1), store_bytes = (\<lambda>a b w. w), uninitialised = ex_params\<rparr>"

lemma ex_os_simps [simp]:
  "sys_ioctl (ex_os r) fd cmd param w = (fst (libc_result r 0), snd (libc_result r 0), w)"
  "sys_malloc (ex_os r) n w = (64, w)" "load_int (ex_os r) a w = (if a = 9 then 10 else 1)"
  by (simp_all add: ex_os_def)


text \<open>
  C31: A call made without linber_init opens the device and closes it again but keeps the
  descriptor: the next call does not open the device, it goes to the closed descriptor.
\<close>

theorem implicit_open_leaves_stale_descriptor:
  assumes "linber_fd p < 0" and "sys_open os (world p) = (fd, w)" and "0 \<le> fd"
    and "sys_ioctl os fd cmd param w = (r, e, w')"
  shows "snd (ioctl_send os cmd param p) = \<lparr>linber_fd = fd, world = sys_close os fd w'\<rparr> \<and>
    ioctl_send os cmd' param' (snd (ioctl_send os cmd param p)) =
      (let (r, e, w'') = sys_ioctl os fd cmd' param' (sys_close os fd w')
       in (if r < 0 then - e else r, \<lparr>linber_fd = fd, world = w''\<rparr>))"
  using assms by (cases p) (simp add: ioctl_send_def linber_init_def linber_exit_def Let_def case_prod_unfold)

theorem implicit_open_leaves_stale_descriptor_witness:
  "snd (ioctl_send (ex_os 0) IOCTL_REQUEST_SERVICE (Status 0) \<lparr>linber_fd = - 1, world = 0\<rparr>) =
     \<lparr>linber_fd = 3, world = 0\<rparr>"
  using implicit_open_leaves_stale_descriptor [of "\<lparr>linber_fd = - 1, world = 0\<rparr>" "ex_os 0" 3 1
      IOCTL_REQUEST_SERVICE "Status 0" 0 0 1]
  by (simp add: ex_os_def libc_result_def)



section \<open>The worker's file\<close>

lemma length_decimal: "length (decimal n) = (if n < 10 then 1 else 2)"
  by (simp add: decimal_def)

lemma length_worker_file: "length (worker_file u n) = strlen u + 6 + (if n < 10 then 1 else 2)"
  by (simp add: worker_file_def tmp_dir_def underscore_def strlen_def length_decimal)

text \<open>
  C32: The name of a worker's file fits its buffer for the ids 0 to 9 when the announced
  length covers the URI, and for the ids 10 to 99 only when it counts the NUL as well:
  otherwise registering a worker writes past the end of the buffer.
\<close>

theorem worker_file_overflow:
  assumes "ioctl_send os IOCTL_REGISTER_SERVICE_WORKER (Params ((with_uri uri_ptr len_uri (uninitialised os))
      \<lparr>op_register_worker := \<lparr>rw_service_token = tok, ptr_worker_id = at_id\<rparr>\<rparr>)) p = (0, p1)"
    and "load_int os at_id (world p1) = wid" and "wid \<le> 99" and "unat len_uri + 8 < 2 ^ 31"
    and "\<And>n w. fst (sys_malloc os n w) \<noteq> 0"
  shows "api_register_service_worker os uri_ptr uri_str len_uri tok at_id p = Inl Buffer_overflow \<longleftrightarrow>
    unat len_uri < strlen uri_str + (if wid < 10 then 0 else 1)"
proof -
  have len: "unat (file_str_len len_uri) = unat len_uri + 8"
    using assms(4) by (simp add: file_str_len_def unat_word_ariths)
  obtain f w where m: "sys_malloc os (scast (file_str_len len_uri)) (world p1) = (f, w)" by fastforce
  from assms(5) [of "scast (file_str_len len_uri)" "world p1"] have "f \<noteq> 0" by (simp add: m)
  with assms(1-3) show ?thesis
    by (simp add: api_register_service_worker_def Let_def m len length_worker_file not_less [symmetric])
qed

theorem worker_file_overflow_witness:
  "api_register_service_worker (ex_os 0) 0 [115, 0] 1 42 9 \<lparr>linber_fd = 3, world = 0\<rparr> = Inl Buffer_overflow"
proof -
  let ?p = "\<lparr>linber_fd = 3, world = 0\<rparr> :: nat proc"
  have "ioctl_send (ex_os 0) cmd param ?p = (0, ?p)" for cmd param
    by (simp add: ioctl_send_def libc_result_def Let_def)
  from worker_file_overflow [where at_id = 9 and wid = 10 and uri_str = "[115, 0]" and len_uri = 1
      and uri_ptr = 0 and tok = 42, OF this] show ?thesis
    by (simp add: strlen_def)
qed


section \<open>Fetching the response\<close>

text \<open>
  When the shared memory of a response cannot be found, the call that waits for it still
  reports success, with a NULL response: the check after the attach looks at the pointer to
  the result instead of the result, and the id - 1 is passed on to shmctl.
\<close>

lemma failed_attach_reports_success:
  assumes "load_int os (ptr_response_shm_mode (op_request param)) (world p) \<noteq> 0"
    and "sys_shmget os (load_int os (ptr_shm_response_key (op_request param)) (world p))
      (load_int os (ptr_response_len (op_request param)) (world p)) False (world p) = (- 1, w)"
  shows "fetch_response os param LINBER_REQUEST_SUCCESS p =
    ((LINBER_REQUEST_SUCCESS, 0), p\<lparr>world := sys_shmctl_rmid os (- 1) w\<rparr>)"
  using assms by (simp add: fetch_response_def attach_shm_from_key_def Let_def)

text \<open>
  The result of a blocking request: the code of a failure comes with a NULL response; after
  a success with the response in kernel memory, the library allocates the announced length
  and fetches the response of the same service and token into it.
\<close>

lemma blocking_request_result:
  assumes "ioctl_send os IOCTL_REQUEST_SERVICE (Params (blocking_params (with_uri uri_ptr len_uri
      (uninitialised os)) ptrs (absolute_deadline (sys_clock_gettime os (world p)) ms) False req len)) p = (ret, p1)"
  shows "(ret \<noteq> LINBER_REQUEST_SUCCESS \<longrightarrow>
      api_request_service os ptrs uri_ptr len_uri ms req len p = ((ret, 0), p1)) \<and>
    (ret = LINBER_REQUEST_SUCCESS \<and> load_int os (at_response_shm_mode ptrs) (world p1) = 0 \<longrightarrow>
      (\<exists>param buf w. sys_malloc os (scast (load_int os (at_response_len ptrs) (world p1))) (world p1) = (buf, w) \<and>
         ptr_response (op_request param) = buf \<and> ptr_token (op_request param) = at_token ptrs \<and>
         service_uri_ptr param = uri_ptr \<and>
         api_request_service os ptrs uri_ptr len_uri ms req len p =
           (let (r, p2) = ioctl_send os IOCTL_REQUEST_SERVICE_GET_RESPONSE (Params param) (p1\<lparr>world := w\<rparr>)
            in ((r, buf), p2))))"
proof -
  let ?P = "blocking_params (with_uri uri_ptr len_uri (uninitialised os)) ptrs
    (absolute_deadline (sys_clock_gettime os (world p)) ms) False req len"
  obtain buf w where m:
    "sys_malloc os (scast (load_int os (at_response_len ptrs) (world p1))) (world p1) = (buf, w)" by fastforce
  let ?Q = "?P\<lparr>op_request := (op_request ?P)\<lparr>ptr_response := buf\<rparr>\<rparr>"
  have P: "ptr_response_len (op_request ?P) = at_response_len ptrs"
    "ptr_response_shm_mode (op_request ?P) = at_response_shm_mode ptrs"
    "ptr_token (op_request ?P) = at_token ptrs" "service_uri_ptr ?P = uri_ptr"
    by (simp_all add: blocking_params_def with_uri_def)
  have E: "api_request_service os ptrs uri_ptr len_uri ms req len p = fetch_response os ?P ret p1"
    using assms by (simp add: api_request_service_def Let_def)
  have "ret = LINBER_REQUEST_SUCCESS \<Longrightarrow> load_int os (at_response_shm_mode ptrs) (world p1) = 0 \<Longrightarrow>
      fetch_response os ?P ret p1 = (let (r, p2) = ioctl_send os IOCTL_REQUEST_SERVICE_GET_RESPONSE (Params ?Q)
        (p1\<lparr>world := w\<rparr>) in ((r, buf), p2))"
    by (simp add: fetch_response_def P m Let_def)
  moreover have "ptr_response (op_request ?Q) = buf" "ptr_token (op_request ?Q) = at_token ptrs"
    "service_uri_ptr ?Q = uri_ptr" using P by simp_all
  moreover have "ret \<noteq> LINBER_REQUEST_SUCCESS \<Longrightarrow> fetch_response os ?P ret p1 = ((ret, 0), p1)"
    by (simp add: fetch_response_def)
  ultimately show ?thesis unfolding E using m by blast
qed

end
