(* ===== verification/Client_Props.thy ===== *)
theory Client_Props
  imports API_Props
begin

text \<open>
  The C++ classes: the states a client goes through, whatever the calls return, what its
  operations hand out and free, and when a worker's loop ends.
\<close>

section \<open>The states of a client\<close>

text \<open>
  The two state members together: idle, a request sent and answered, a shared memory
  request created, sent and answered.
\<close>

definition phase :: "client \<Rightarrow> int \<times> int" where
  "phase c = (request_state c, request_shm_state c)"

definition idle_phase :: "int \<times> int" where
  "idle_phase = (0, - 1)"

definition busy_phases :: "(int \<times> int) set" where
  "busy_phases = {(1, - 1), (2, - 1), (0, 0), (0, 1), (0, 2)}"

text \<open>
  One step of a program that uses the client: a call of one of its operations with any
  arguments, or anything that changes the world around it.
\<close>

inductive client_step ::
    "'w os \<Rightarrow> result_pointers \<Rightarrow> result_pointers \<Rightarrow> client \<times> 'w proc \<Rightarrow> client \<times> 'w proc \<Rightarrow> bool"
  for os members locals where
  send: "linber_sendRequest os members req len is_blocking rel c p = (res, c', p') \<Longrightarrow>
    client_step os members locals (c, p) (c', p')"
| create: "linber_create_shm os len c p = (res, c', p') \<Longrightarrow> client_step os members locals (c, p) (c', p')"
| send_shm: "linber_sendRequest_shm os locals is_blocking rel c p = (res, c', p') \<Longrightarrow>
    client_step os members locals (c, p) (c', p')"
| response: "linber_get_response os members c p = (res, c', p') \<Longrightarrow>
    client_step os members locals (c, p) (c', p')"
| finish: "linber_end_operation os members c p = (c', p') \<Longrightarrow> client_step os members locals (c, p) (c', p')"
| other: "client_step os members locals (c, p) (c, p')"

inductive_cases client_stepE: "client_step os members locals (c, p) (c', p')"

lemmas phase_defs = phase_def idle_phase_def busy_phases_def

text \<open>The transitions, one equation per operation.\<close>

lemma phase_transitions:
  "phase (fst (snd (linber_sendRequest os members req len is_blocking rel c p))) =
    (if phase c = (0, - 1) then (if is_blocking then 2 else 1, - 1) else phase c)"
  "phase (fst (snd (linber_create_shm os len c p))) \<in> {phase c, if phase c = (0, - 1) then (0, 0) else phase c}"
  "phase (fst (snd (linber_sendRequest_shm os locals is_blocking rel c p))) =
    (if snd (phase c) = 0 then (fst (phase c), if is_blocking then 2 else 1) else phase c)"
  "phase (fst (snd (linber_get_response os members c p))) \<in>
    {phase c, if fst (phase c) = 1 then (2, snd (phase c))
              else if snd (phase c) = 1 then (fst (phase c), 2) else phase c}"
  "phase (fst (linber_end_operation os members c p)) =
    (if fst (phase c) \<in> {1, 2} \<or> snd (phase c) \<in> {0, 1, 2} then (0, - 1) else phase c)"
  by (simp_all add: phase_def linber_sendRequest_def linber_create_shm_def linber_sendRequest_shm_def
      linber_get_response_def linber_end_operation_def Let_def case_prod_unfold)

lemma client_step_phase:
  assumes "client_step os members locals (c, p) (c', p')" and "phase c \<in> insert idle_phase busy_phases"
  shows "phase c' \<in> insert idle_phase busy_phases"
proof (rule client_stepE [OF assms(1)], goal_cases)
  case (1 req len is_blocking rel res)
  with phase_transitions(1) [of os members req len is_blocking rel c p] assms(2) show ?thesis
    by (auto simp: idle_phase_def busy_phases_def split: if_splits)
next
  case (2 len res)
  with phase_transitions(2) [of os len c p] assms(2) show ?thesis
    by (auto simp: idle_phase_def busy_phases_def split: if_splits)
next
  case (3 is_blocking rel res)
  with phase_transitions(3) [of os locals is_blocking rel c p] assms(2) show ?thesis
    by (auto simp: idle_phase_def busy_phases_def split: if_splits)
next
  case (4 res)
  with phase_transitions(4) [of os members c p] assms(2) show ?thesis
    by (auto simp: idle_phase_def busy_phases_def split: if_splits)
next
  case 5
  with phase_transitions(5) [of os members c p] assms(2) show ?thesis
    by (auto simp: idle_phase_def busy_phases_def split: if_splits)
qed (use assms(2) in simp)

lemma client_reachable_phase:
  assumes "(client_step os members locals)\<^sup>*\<^sup>* (c, p) (c', p')" and "phase c = idle_phase"
  shows "phase c' \<in> insert idle_phase busy_phases"
  using assms(1)
proof (induction "(c', p')" arbitrary: c' p' rule: rtranclp_induct)
  case base
  with assms(2) show ?case by simp
next
  case (step y)
  obtain d q where y: "y = (d, q)" by (cases y)
  from step(3) [OF y] step(2) show ?case unfolding y by (rule client_step_phase [rotated])
qed

text \<open>
  C35: One request at a time: from its construction on, whatever the kernel answers and
  however its operations are called, a client is idle or in one of five busy states; in a
  busy state a new request is refused without any effect, and linber_end_operation makes it
  idle again.
\<close>

theorem client_one_request_at_a_time:
  assumes "linberServiceClient os uri_ptr len_uri memory p = (c, q)"
    and "(client_step os members locals)\<^sup>*\<^sup>* (c, q) (c', p')"
  shows "phase c' = idle_phase \<or> phase c' \<in> busy_phases \<and>
    linber_sendRequest os members req len is_blocking rel c' p' = (None, c', p') \<and>
    linber_create_shm os len c' p' = (None, c', p') \<and>
    phase (fst (linber_end_operation os members c' p')) = idle_phase"
proof -
  have "phase c = idle_phase" using assms(1) by (auto simp: linberServiceClient_def phase_defs)
  from client_reachable_phase [OF assms(2) this] show ?thesis
    by (auto simp: phase_defs linber_sendRequest_def linber_create_shm_def linber_end_operation_def Let_def)
qed

definition ex_members :: result_pointers where
  "ex_members = \<lparr>at_token = 1, at_response_key = 2, at_response_len = 3, at_response_shm_mode = 4\<rparr>"

definition ex_client :: client where
  "ex_client = \<lparr>cl_uri = 70, cl_uri_len = 2, cl_request_len = 0, cl_request = 0, cl_response = 0,
     cl_request_shm_key = 0, cl_request_shm_mode = False, cl_abs_deadline = 0, request_state = 0,
     request_shm_state = - 1, cl_rel_deadline = 0, cl_low_id = 0\<rparr>"

abbreviation ex_proc :: "nat proc" where
  "ex_proc \<equiv> \<lparr>linber_fd = 3, world = 0\<rparr>"

theorem client_one_request_at_a_time_witness:
  "\<exists>c p. linber_sendRequest (ex_os (- 3)) ex_members 80 2 True 0 ex_client ex_proc = (Some (0, 1), c, p) \<and>
     linber_sendRequest (ex_os (- 3)) ex_members 90 2 True 0 c p = (None, c, p)"
proof -
  have con: "linberServiceClient (ex_os (- 3)) 70 2 ex_client ex_proc =
      (ex_client, \<lparr>linber_fd = 3, world = 1\<rparr>)"
    by (simp add: linberServiceClient_def ex_client_def linber_init_def ex_os_def)
  obtain res c p where s: "linber_sendRequest (ex_os (- 3)) ex_members 80 2 True 0 ex_client ex_proc = (res, c, p)"
    and c: "request_state c = 2" "res = Some (0, 1)"
    by (simp add: linber_sendRequest_def ex_client_def api_request_service_def fetch_response_def
        ioctl_send_def libc_result_def codes ex_members_def Let_def)
  have "client_step (ex_os (- 3)) ex_members ex_members (ex_client, \<lparr>linber_fd = 3, world = 1\<rparr>)
      (ex_client, ex_proc)" by (rule client_step.other)
  moreover have "client_step (ex_os (- 3)) ex_members ex_members (ex_client, ex_proc) (c, p)"
    using s by (rule client_step.send)
  ultimately have "(client_step (ex_os (- 3)) ex_members ex_members)\<^sup>*\<^sup>*
      (ex_client, \<lparr>linber_fd = 3, world = 1\<rparr>) (c, p)"
    by (meson rtranclp.rtrancl_into_rtrancl rtranclp.rtrancl_refl)
  from client_one_request_at_a_time [OF con this, of 90 2 True 0] c(1)
  have "linber_sendRequest (ex_os (- 3)) ex_members 90 2 True 0 c p = (None, c, p)"
    by (auto simp: phase_defs)
  with s c show ?thesis by blast
qed


section \<open>What the client hands out and frees\<close>

text \<open>
  C36: linber_get_response hands out the request: when the call of the library has
  succeeded, its result is the pointer the client sent, and the response is only kept in
  the member that linber_end_operation frees.
\<close>

theorem get_response_returns_request:
  assumes "phase c \<in> {(1, - 1), (0, 1)}"
    and "api_request_service_get_response os members (cl_uri c) (cl_uri_len c) (cl_abs_deadline c) p =
      ((ret, resp), p')" and "0 \<le> ret"
  shows "\<exists>c'. linber_get_response os members c p = (cl_request c, c', p') \<and> cl_response c' = resp \<and>
    phase c' \<in> {(2, - 1), (0, 2)} \<and>
    snd (linber_end_operation os members c' p') =
      linber_request_service_clean os resp (load_int os (at_response_shm_mode members) (world p')) p'"
  using assms by (auto simp: linber_get_response_def linber_end_operation_def phase_def Let_def)

theorem get_response_returns_request_witness:
  "fst (linber_get_response (ex_os 0) ex_members (ex_client\<lparr>request_state := 1, cl_request := 80\<rparr>) ex_proc) = 80"
proof -
  let ?c = "ex_client\<lparr>request_state := 1, cl_request := 80\<rparr>"
  obtain resp p where "api_request_service_get_response (ex_os 0) ex_members (cl_uri ?c) (cl_uri_len ?c)
      (cl_abs_deadline ?c) ex_proc = ((0, resp), p)"
    by (simp add: api_request_service_get_response_def fetch_response_def ioctl_send_def libc_result_def
        codes attach_shm_from_key_def ex_os_def ex_members_def with_uri_def Let_def)
  from get_response_returns_request [OF _ this] show ?thesis
    by (auto simp: phase_def ex_client_def)
qed

text \<open>
  The response of a blocking shared memory request is handed out but not kept: the client's
  own member stays as it was, and it is that older pointer that linber_end_operation
  releases.
\<close>

lemma shm_response_not_kept:
  assumes "request_shm_state c = 0"
    and "linber_sendRequest_shm os locals True rel c p = (Some (resp, len), c', p')"
  shows "cl_response c' = cl_response c \<and> request_shm_state c' = 2 \<and>
    snd (linber_end_operation os members c' q) =
      (if request_state c = 1
       then linber_request_service_clean os 0 (load_int os (at_response_shm_mode members) (world q)) q
       else linber_request_service_clean os (cl_response c)
              (load_int os (at_response_shm_mode members) (world q)) q)"
  using assms
  by (auto simp: linber_sendRequest_shm_def linber_end_operation_def Let_def split: prod.splits)


section \<open>The loop of a worker\<close>








section \<open>The life of a worker\<close>

text \<open>
  A worker the kernel refuses: its loop does not run, its file name was never set, and its
  destructor removes the file and frees the memory at whatever address the member holds.
\<close>

lemma refused_worker_frees_unset_pointer:
  assumes new: "linberServiceWorker os uri_str tok memory p = Inr (wk, p0)"
    and reg: "ioctl_send os IOCTL_REGISTER_SERVICE_WORKER (Params ((with_uri (wk_uri wk) (wk_uri_len wk)
      (uninitialised os))\<lparr>op_register_worker := \<lparr>rw_service_token = tok, ptr_worker_id = at_id\<rparr>\<rparr>)) p0 = (ret, p1)"
    and ret: "ret < 0"
  shows "\<exists>wk'. join_worker os ptrs job clear at_id uri_str wk p0 = Some (Inr (wk', p1)) \<and>
    linberServiceWorker_destructor os wk' p1 = Some (wk'\<lparr>wk_uri := 0\<rparr>, p1\<lparr>world :=
      sys_free os (wk_uri wk) (sys_free os (wk_file memory) (sys_remove os (wk_file memory) (world p1)))\<rparr>)"
proof -
  from new have wk: "wk_token wk = tok" "wk_joinable wk" "wk_file wk = wk_file memory"
    by (auto simp: linberServiceWorker_def Let_def case_prod_unfold split: if_splits)
  have "api_register_service_worker os (wk_uri wk) uri_str (wk_uri_len wk) (wk_token wk) at_id p0 =
      Inr ((ret, None), p1)"
    using reg ret wk(1) by (simp add: api_register_service_worker_def Let_def)
  moreover have "worker_loop os ptrs job clear (wk\<lparr>wk_id := i, wk_alive := False\<rparr>) p1 =
      Some (wk\<lparr>wk_id := i, wk_alive := False\<rparr>, p1)" for i
    by (subst worker_loop.simps) simp
  ultimately show ?thesis
    using ret wk by (simp add: join_worker_def worker_job_def linberServiceWorker_destructor_def
        linber_destroy_worker_def Let_def)
qed

text \<open>A thread that nobody joined ends the process when its worker is destroyed.\<close>

lemma unjoined_worker_terminates:
  "linberServiceWorker os uri_str tok memory p = Inr (wk, p0) \<Longrightarrow>
    linberServiceWorker_destructor os (terminate_worker wk) p1 = None"
  by (auto simp: linberServiceWorker_def linberServiceWorker_destructor_def terminate_worker_def
      Let_def case_prod_unfold split: if_splits)

end
