(* ===== verification/Linked.thy ===== *)
theory Linked
  imports Job_Props API_Props
begin

text \<open>
  The library linked to the module: the ioctl of the library's system is linber_ioctl on
  the module's state, run up to its return. A process that has to wait, or a call that
  faults, stops the world here, so that what is shown of a world that runs on holds without
  other processes stepping in between.
\<close>

section \<open>A system call\<close>

datatype machine = Running kstate | Stopped "fault option"

definition returned :: "progress \<times> kstate \<Rightarrow> fault + (int \<times> kstate) option" where
  "returned x = (case x of (Done r, s) \<Rightarrow> Inr (Some (r, s)) | _ \<Rightarrow> Inr None)"

text \<open>A call that reaches a wait goes on at once if the semaphore lets it; None if not.\<close>

definition resume :: "env \<Rightarrow> linber_service_struct \<Rightarrow> progress \<times> kstate \<Rightarrow>
    fault + (int \<times> kstate) option" where
  "resume env obj x = (case x of
     (Done r, s) \<Rightarrow> Inr (Some (r, s))
   | (Wait_init a, s) \<Rightarrow> bnd (down_request False a s) (\<lambda>woken. case woken of None \<Rightarrow> Inr None
       | Some s \<Rightarrow> bnd (request_queued (op_request obj) True a s) returned)
   | (Wait_response a, s) \<Rightarrow> bnd (down_request False a s) (\<lambda>woken. case woken of None \<Rightarrow> Inr None
       | Some s \<Rightarrow> bnd (request_completed (op_request obj) a s) returned)
   | (Wait_job sn w, s) \<Rightarrow> bnd (down_service False sn s) (\<lambda>woken. case woken of None \<Rightarrow> Inr None
       | Some s \<Rightarrow> bnd (start_job_woken env (op_start_job obj) sn w s) returned))"

text \<open>The parameter block is a local variable of the library's function, at address at.\<close>

definition system_call :: "env \<Rightarrow> uaddr \<Rightarrow> ioctl_op \<Rightarrow> ioctl_arg \<Rightarrow> kstate \<Rightarrow>
    fault + (int \<times> kstate) option" where
  "system_call env at op arg s = (case arg of
     Params obj \<Rightarrow> bnd (linber_ioctl env op at (s\<lparr>umem := (umem s)(at \<mapsto> UParams obj)\<rparr>)) (resume env obj)
   | Status a \<Rightarrow> bnd (linber_ioctl env op a s) returned)"

definition module_ioctl :: "env \<Rightarrow> uaddr \<Rightarrow> ioctl_op \<Rightarrow> ioctl_arg \<Rightarrow> kstate \<Rightarrow> int \<times> int \<times> machine" where
  "module_ioctl env at op arg s = (case system_call env at op arg s of
     Inl e \<Rightarrow> (0, 0, Stopped (Some e))
   | Inr None \<Rightarrow> (0, 0, Stopped None)
   | Inr (Some (r, s')) \<Rightarrow> (fst (libc_result r 0), snd (libc_result r 0), Running s'))"

text \<open>
  What the system below a process promises: ioctl reaches the module, an int of the
  process's memory can be read, malloc hands out the address brk when that is free, with
  arbitrary contents, and free takes an address back.
\<close>

definition linked :: "env \<Rightarrow> uaddr \<Rightarrow> uaddr \<Rightarrow> machine os \<Rightarrow> bool" where
  "linked env at brk os \<longleftrightarrow> kmalloc_param env \<and> kmalloc_uri env \<and> brk \<noteq> 0 \<and>
     (\<forall>fd op arg s. 0 \<le> fd \<longrightarrow> sys_ioctl os fd op arg (Running s) = module_ioctl env at op arg s) \<and>
     (\<forall>x s. load_int os x (Running s) = (case umem s x of Some (UInt v) \<Rightarrow> v | _ \<Rightarrow> 0)) \<and>
     (\<forall>k s. umem s brk = None \<longrightarrow> (\<exists>g. length g = unat k \<and>
        sys_malloc os k (Running s) = (brk, Running (s\<lparr>umem := (umem s)(brk \<mapsto> UBytes g)\<rparr>)))) \<and>
     (\<forall>x s. sys_free os x (Running s) = Running (s\<lparr>umem := (umem s)(x := None)\<rparr>))"

lemma linkedD:
  assumes "linked env at brk os"
  shows "kmalloc_param env" and "kmalloc_uri env" and "brk \<noteq> 0"
    and "0 \<le> fd \<Longrightarrow> sys_ioctl os fd op arg (Running s) = module_ioctl env at op arg s"
    and "load_int os x (Running s) = (case umem s x of Some (UInt v) \<Rightarrow> v | _ \<Rightarrow> 0)"
    and "umem s brk = None \<Longrightarrow> \<exists>g. length g = unat k \<and>
      sys_malloc os k (Running s) = (brk, Running (s\<lparr>umem := (umem s)(brk \<mapsto> UBytes g)\<rparr>))"
    and "sys_free os x (Running s) = Running (s\<lparr>umem := (umem s)(x := None)\<rparr>)"
  using assms unfolding linked_def by blast+

text \<open>A URI a process announces: the bytes up to the announced length are readable.\<close>

definition has_uri :: "kstate \<Rightarrow> uaddr \<Rightarrow> u32 \<Rightarrow> bytes \<Rightarrow> bool" where
  "has_uri s x len u \<longleftrightarrow> len \<noteq> - 1 \<and> copy_from_user x (unat len) s = Some u"

lemma has_uri_umem: "umem s' x = umem s x \<Longrightarrow> has_uri s' x len u = has_uri s x len u"
  by (simp add: has_uri_def copy_from_user_def)

text \<open>What the library gets back from a call that returns.\<close>

lemma call_returns:
  assumes os: "linked env at brk os" and fd: "0 \<le> linber_fd p" and w: "world p = Running s"
    and uri: "has_uri s (service_uri_ptr obj) (service_uri_len obj) u" "service_uri_ptr obj \<noteq> at"
    and op: "op \<noteq> IOCTL_SYSTEM_STATUS"
    and run: "bnd (call_handler env op u obj (s\<lparr>umem := (umem s)(at \<mapsto> UParams obj)\<rparr>)) (resume env obj) =
      Inr (Some (r, s'))"
  shows "ioctl_send os op (Params obj) p = (r, p\<lparr>world := Running s'\<rparr>)"
proof -
  have "\<not> service_uri_len obj + 1 \<le> service_uri_len obj"
    using uri(1) unat_Suc_less [of "service_uri_len obj" "- 1"]
    by (simp add: has_uri_def word_le_nat_alt word_order.not_eq_extremum)
  moreover have "copy_from_user (service_uri_ptr obj) (unat (service_uri_len obj))
      (s\<lparr>umem := (umem s)(at \<mapsto> UParams obj)\<rparr>) = Some u"
    using uri by (simp add: has_uri_def copy_from_user_def)
  ultimately have "linber_ioctl env op at (s\<lparr>umem := (umem s)(at \<mapsto> UParams obj)\<rparr>) =
      call_handler env op u obj (s\<lparr>umem := (umem s)(at \<mapsto> UParams obj)\<rparr>)"
    using op linkedD(1,2) [OF os] by (simp add: linber_ioctl_def CHECK_KMALLOC_ERROR_def CHECK_MEMORY_ERROR_def)
  with run have "system_call env at op (Params obj) s = Inr (Some (r, s'))"
    by (simp add: system_call_def)
  with fd w linkedD(4) [OF os] show ?thesis
    by (simp add: ioctl_send_open [OF fd] module_ioctl_def libc_result_def)
qed


section \<open>Queueing a request\<close>

text \<open>A service that lives, reached under the URI u, with the worker of process pid in slot w.\<close>

definition serving_service :: "kstate \<Rightarrow> bytes \<Rightarrow> addr \<Rightarrow> ServiceNode \<Rightarrow> u64 \<Rightarrow> u32 \<Rightarrow> pid \<Rightarrow> bool" where
  "serving_service s u sn n tok w pid \<longleftrightarrow> well_formed s \<and> lookup s u = Some sn \<and> sers s sn = Some n \<and>
     \<not> destroy_me n \<and> Service_check_Worker n tok w \<and> w < next_id n \<and>
     task (worker_slots n ! unat w) = Some pid"

lemma Insert_into_empty:
  "Insert_ReqNode_Sorted_by_Deadline ops True d a t = (True, snd (Insert_ReqNode_Sorted_by_Deadline ops True d a t))"
  by (auto simp: Insert_ReqNode_Sorted_by_Deadline_def split: rb_place.split)

text \<open>The state after a request is queued, before the client's memory is written.\<close>

definition requested :: "env \<Rightarrow> addr \<Rightarrow> ServiceNode \<Rightarrow> addr \<Rightarrow> RequestNode \<Rightarrow> addr \<Rightarrow> bytes \<Rightarrow> u64 \<Rightarrow> u32 \<Rightarrow> kstate \<Rightarrow> kstate" where
  "requested env sn n a g b data d len s = s\<lparr>sers := (sers s)(sn \<mapsto> queued env d a n),
     reqs := (reqs s)(a \<mapsto> new_request env n b len False 0 d g), bufs := (bufs s)(b \<mapsto> data)\<rparr>"

lemma queue_request:
  assumes wf: "well_formed s" and env: "env_ok env s" and look: "lookup s u = Some sn"
    and n: "sers s sn = Some n" "\<not> destroy_me n"
    and rp: "status rp = 0" "blocking rp = 0" "rp_request_shm_mode rp = 0" "rp_request_len rp \<le> LINBER_MAX_MEM_SIZE"
    and mem: "kmalloc_buffer env (rp_request_len rp) = Some (b, g)" "kmalloc_request env = Some (a, gr)"
      "kmalloc_container env"
    and data: "copy_from_user (rp_request rp) (unat (rp_request_len rp)) s = Some data"
    and tok: "umem s (ptr_token rp) \<noteq> None"
  shows "linber_request_service env u rp s = Inr (Done LINBER_REQUEST_WAITING,
    (requested env sn n a gr b data (rp_abs_deadline_ns rp) (rp_request_len rp) s)\<lparr>umem :=
      (umem s)(ptr_token rp \<mapsto> ULong (next_req_token n))\<rparr>)"
proof -
  let ?s = "s\<lparr>bufs := (bufs s)(b \<mapsto> data)\<rparr>"
  have n': "sers ?s sn = Some n" using n(1) by simp
  from enqueue_request_eq [OF n' ser_okD(1) [OF wf_serD [OF wf n(1)]] mem(2)
      Insert_into_empty [of "rb_reqs env" "rp_abs_deadline_ns rp" a "Requests_rbtree n", folded mem(3) [THEN eqTrueI]],
      of b "rp_request_len rp" False 0]
  have enq: "enqueue_request_for_service env sn b (rp_request_len rp) False 0 (rp_abs_deadline_ns rp) ?s =
      Inr (Some a, requested env sn n a gr b data (rp_abs_deadline_ns rp) (rp_request_len rp) s)"
    using mem(3) by (simp add: requested_def Let_def)
  have cp: "copy_from_user (rp_request rp) (unat (rp_request_len rp)) (s\<lparr>bufs := f\<rparr>) = Some data" for f
    using data by (simp add: copy_from_user_def)
  from tok obtain v where "umem s (ptr_token rp) = Some v" by blast
  then show ?thesis
    using n look rp mem(1) enq cp leD [OF rp(4)]
    by (simp add: linber_request_service_def linber_request_service_found_def findService_wf [OF wf] load_ser_def codes CHECK_KMALLOC_ERROR_def
        CHECK_MEMORY_ERROR_def enqueue_and_wait_def request_queued_def load_req_def put_user_def Let_def requested_def)
qed

text \<open>
  What the queueing leaves: the request waits, alone if the service had none, and the worker
  is still registered.
\<close>

lemma requested_simps [simp]:
  "sers (requested env sn n a g b data d len s) = (sers s)(sn \<mapsto> queued env d a n)"
  "reqs (requested env sn n a g b data d len s) = (reqs s)(a \<mapsto> new_request env n b len False 0 d g)"
  "bufs (requested env sn n a g b data d len s) = (bufs s)(b \<mapsto> data)"
  "umem (requested env sn n a g b data d len s) = umem s"
  "Services_rbtree (requested env sn n a g b data d len s) = Services_rbtree s"
  by (simp_all add: requested_def)

lemma queued_alone:
  assumes "rb_ok (rb_reqs env)" and "kmalloc_container env" and "owned n = []"
  shows "waiting (Requests_rbtree (queued env d a n)) = [(d, a)]" and "owned (queued env d a n) = [a]"
proof -
  from assms(3) have w: "waiting (Requests_rbtree n) = []" "serving_list (worker_slots n) = []"
    "Completed_RequestsHead n = []" by (simp_all add: owned_def)
  from Insert_waiting [OF assms(1) Insert_into_empty] obtain xs ys where
    "waiting (Requests_rbtree n) = xs @ ys"
    "waiting (snd (Insert_ReqNode_Sorted_by_Deadline (rb_reqs env) True d a (Requests_rbtree n))) = xs @ (d, a) # ys"
    by metis
  with w(1) assms(2) show q: "waiting (Requests_rbtree (queued env d a n)) = [(d, a)]"
    by (simp add: queued_def)
  then show "owned (queued env d a n) = [a]" using w by (simp add: owned_def)
qed


section \<open>Taking the request\<close>

lemma idle_slot:
  assumes "owned n = []" and "i < length (worker_slots n)"
  shows "serving (worker_slots n ! i) = None"
  using assms serving_owned(1) [OF assms(2)] by (cases "serving (worker_slots n ! i)") auto

text \<open>
  A worker that asks for a job where one waits does not sleep: it takes the request, and its
  memory gets the request's length and mode.
\<close>

lemma start_job_runs:
  assumes ser: "serving_service s u sn n (sj_service_token sj) (sj_worker_id sj) (current env)"
    and env: "rb_ok (rb_reqs env)"
    and idle: "serving (worker_slots n ! unat (sj_worker_id sj)) = None"
    and w: "waiting (Requests_rbtree n) = (d, a) # rest" and sem: "0 < sem_for_request n"
    and r: "reqs s a = Some r" "\<not> request_shm_mode r"
    and mem: "umem s (ptr_request_len sj) \<noteq> None" "umem s (ptr_request_shm_mode sj) \<noteq> None"
    and obj: "op_start_job obj = sj"
  shows "\<exists>t s'. waiting t = rest \<and> well_formed s' \<and>
    bnd (call_handler env IOCTL_START_JOB_SERVICE u obj s) (resume env obj) = Inr (Some (0, s')) \<and>
    sers s' = (sers s)(sn \<mapsto> taken (unat (sj_worker_id sj)) a t (n\<lparr>sem_for_request := sem_for_request n - 1\<rparr>)) \<and>
    umem s' = (umem s)(ptr_request_len sj \<mapsto> UInt (request_len r), ptr_request_shm_mode sj \<mapsto> UInt 0) \<and>
    reqs s' = reqs s \<and> bufs s' = bufs s \<and> Services_rbtree s' = Services_rbtree s"
proof -
  let ?w = "sj_worker_id sj"
  from ser have wf: "well_formed s" and look: "lookup s u = Some sn" and n: "sers s sn = Some n" "\<not> destroy_me n"
    and chk: "Service_check_Worker n (sj_service_token sj) ?w" and id: "?w < next_id n"
    and task: "task (worker_slots n ! unat ?w) = Some (current env)" by (simp_all add: serving_service_def)
  have slot: "get_worker_by_id env n ?w = Inr (Some (unat ?w))"
    using get_worker_by_id_eq [OF ser_okD(5) [OF wf_serD [OF wf n(1)]] id] task by simp
  have call: "call_handler env IOCTL_START_JOB_SERVICE u obj s = Inr (Wait_job sn ?w, s)"
    using look n chk slot idle obj
    by (simp add: call_handler_def linber_Start_Job_def linber_Start_Job_found_def findService_wf [OF wf] load_ser_def
        worker_wait_for_request_def)
  let ?n = "n\<lparr>sem_for_request := sem_for_request n - 1\<rparr>"
  let ?s = "s\<lparr>sers := (sers s)(sn \<mapsto> ?n)\<rparr>"
  have down: "down_service False sn s = Inr (Some ?s)"
    using n(1) sem by (simp add: down_service_def load_ser_def modify_ser_def)
  have wf': "well_formed ?s"
    by (rule wf_update_ser [OF wf n(1)]) (use wf_serD [OF wf n(1)] in simp_all)
  have n': "sers ?s sn = Some ?n" and n'': "\<not> destroy_me ?n" "waiting (Requests_rbtree ?n) = (d, a) # rest"
    using n(2) w by simp_all
  from worker_woken_alive(2) [OF env n' wf_serD [OF wf' n'] wf_Services [OF wf' n'] n''] obtain t where
    t: "worker_woken env sn (unat ?w) ?s = Inr (Some a, ?s\<lparr>sers := (sers ?s)(sn \<mapsto> taken (unat ?w) a t ?n)\<rparr>)"
    "waiting t = rest" "no_empty_queue t" by blast
  have i: "unat ?w < unat (next_id ?n)" using id by (simp add: word_less_nat_alt)
  have wf'': "well_formed (s\<lparr>sers := (sers s)(sn \<mapsto> taken (unat ?w) a t ?n)\<rparr>)"
    using taken_wf [OF wf' n' i n''(2) t(2,3)] by simp
  have disp: "\<exists>sc. dispatch_policy env m d' s' = s'\<lparr>sched := sc\<rparr>" for m d' s'
    by (simp add: dispatch_policy_def Dispatch_as_BestEffort_def Dispatch_as_RealTime_def apply_sched_def Let_def)
      (metis kstate.surjective kstate.update_convs)
  let ?s1 = "s\<lparr>sers := (sers s)(sn \<mapsto> taken (unat ?w) a t ?n)\<rparr>"
  obtain sc where sc: "dispatch_policy env (taken (unat ?w) a t ?n) (abs_deadline_ns r) ?s1 = ?s1\<lparr>sched := sc\<rparr>"
    using disp by blast
  obtain v where v: "umem s (ptr_request_len sj) = Some v" using mem(1) by blast
  obtain v' where v': "((umem s)(ptr_request_len sj \<mapsto> UInt (request_len r))) (ptr_request_shm_mode sj) = Some v'"
    using mem(2) by fastforce
  have "start_job_woken env sj sn ?w ?s = Inr (Done 0,
      s\<lparr>sers := (sers s)(sn \<mapsto> taken (unat ?w) a t ?n),
        umem := (umem s)(ptr_request_len sj \<mapsto> UInt (request_len r), ptr_request_shm_mode sj \<mapsto> UInt 0),
        sched := sc\<rparr>)"
    using t(1) r sc v v'
    by (simp add: start_job_woken_def load_req_def load_ser_def Let_def CHECK_MEMORY_ERROR_def put_user_def
        flag_cell_def del: fun_upd_apply add: fun_upd_same)
  moreover define s' where "s' = s\<lparr>sers := (sers s)(sn \<mapsto> taken (unat ?w) a t ?n),
    umem := (umem s)(ptr_request_len sj \<mapsto> UInt (request_len r), ptr_request_shm_mode sj \<mapsto> UInt 0), sched := sc\<rparr>"
  ultimately have "bnd (call_handler env IOCTL_START_JOB_SERVICE u obj s) (resume env obj) = Inr (Some (0, s'))"
    using call down obj by (simp add: resume_def returned_def)
  then show ?thesis
    using t(2) wf'' by (intro exI [of _ t] exI [of _ s'] conjI) (simp_all add: s'_def)
qed

lemma get_request_runs:
  assumes ser: "serving_service s u sn n (sj_service_token sj) (sj_worker_id sj) (current env)"
    and serv: "serving (worker_slots n ! unat (sj_worker_id sj)) = Some a"
    and r: "reqs s a = Some r" "bufs s (request r) = Some data" "length data = unat (request_len r)"
    and mem: "umem s (sj_data sj) = Some (UBytes g)" "length g = length data"
    and obj: "op_start_job obj = sj"
  shows "bnd (call_handler env IOCTL_START_JOB_GET_REQUEST_SERVICE u obj s) (resume env obj) =
    Inr (Some (0, s\<lparr>umem := (umem s)(sj_data sj \<mapsto> UBytes data)\<rparr>))"
proof -
  from ser have wf: "well_formed s" and look: "lookup s u = Some sn" and n: "sers s sn = Some n"
    and chk: "Service_check_Worker n (sj_service_token sj) (sj_worker_id sj)"
    and id: "sj_worker_id sj < next_id n"
    and task: "task (worker_slots n ! unat (sj_worker_id sj)) = Some (current env)"
    by (simp_all add: serving_service_def)
  have "get_worker_by_id env n (sj_worker_id sj) = Inr (Some (unat (sj_worker_id sj)))"
    using get_worker_by_id_eq [OF ser_okD(5) [OF wf_serD [OF wf n]] id] task by simp
  with look n chk serv r mem obj show ?thesis
    by (simp add: call_handler_def linber_Start_Job_get_request_def linber_Start_Job_get_request_found_def findService_wf [OF wf] load_ser_def
        load_req_def load_buf_def copy_to_user_def CHECK_MEMORY_ERROR_def resume_def)
qed

lemma owned_taken_alone:
  assumes "i < length (worker_slots n)" and "waiting (Requests_rbtree n) = [(d, a)]" and "owned n = [a]"
    and "waiting t = []"
  shows "owned (taken i a t n) = [a]"
proof -
  have "mset (owned (taken i a t n)) \<subseteq># {#a#}"
    using owned_taken [OF assms(1,2,4)] assms(3) by simp
  moreover have "a \<in> set (owned (taken i a t n))"
    by (rule serving_owned(1) [of i]) (use assms(1) in \<open>simp_all add: taken_def with_serving_def\<close>)
  ultimately have "mset (owned (taken i a t n)) = {#a#}"
    by (metis count_mset_0_iff mset_subset_eq_single multi_member_split set_mset_mset subset_mset.antisym)
  then show ?thesis by simp
qed

lemma unat_scast_small:
  assumes "len \<le> LINBER_MAX_MEM_SIZE"
  shows "unat (scast len :: u64) = unat len"
proof -
  have "uint len \<le> 4194304" using assms by (simp add: word_le_def codes)
  then have "signed_take_bit 31 (uint len) = uint len"
    by (intro signed_take_bit_int_eq_self) (simp_all add: order_trans [of _ 0])
  then have "sint len = uint len" by (simp add: sint_uint)
  then have "(scast len :: u64) = ucast len" by (simp add: scast_eq)
  then show ?thesis by (simp add: unat_ucast_u32)
qed


section \<open>The request's way to the worker\<close>

lemma serving_service_umem [simp]:
  "serving_service (s\<lparr>umem := m\<rparr>) u sn n tok w pid = serving_service s u sn n tok w pid"
  by (simp add: serving_service_def)

lemma serving_service_cong:
  assumes "serving_service s u sn n tok w pid" and "well_formed s'" and "Services_rbtree s' = Services_rbtree s"
    and "sers s' sn = Some n'" and "destroy_me n' = destroy_me n" and "Max_Workers n' = Max_Workers n"
    and "ser_token n' = ser_token n" and "next_id n' = next_id n"
    and "map task (worker_slots n') = map task (worker_slots n)"
  shows "serving_service s' u sn n' tok w pid"
proof -
  from assms(1) have "unat w < length (worker_slots n)" and task: "task (worker_slots n ! unat w) = Some pid"
    using slot_in_range(1) [OF ser_okD(5) [OF wf_serD]] by (auto simp: serving_service_def)
  moreover have "length (worker_slots n') = length (worker_slots n)"
    using assms(9) by (metis length_map)
  ultimately have "task (worker_slots n' ! unat w) = Some pid"
    using assms(9) by (metis nth_map)
  with assms show ?thesis by (simp add: serving_service_def Service_check_Worker_def)
qed

lemma env_ok_umem [simp]: "env_ok env (s\<lparr>umem := m\<rparr>) = env_ok env s"
  by (simp add: env_ok_def)

lemma copy_from_user_umem:
  "umem s' x = umem s x \<Longrightarrow> copy_from_user x k s' = copy_from_user x k s"
  by (simp add: copy_from_user_def)

text \<open>The client's call: the state it leaves, with the service's worker where it was.\<close>

lemma client_queues:
  assumes ser: "serving_service s u sn n tok w pid"
    and os: "linked env at brk os" and fd: "0 \<le> fd" and env: "env_ok env s"
    and mem: "kmalloc_buffer env len = Some (b, g)" "kmalloc_request env = Some (a, gr)" "kmalloc_container env"
    and len: "len \<le> LINBER_MAX_MEM_SIZE" and uri: "has_uri s uptr ulen u"
    and data: "copy_from_user req (unat len) s = Some data" and tokp: "umem s at_tok \<noteq> None"
    and apart: "at \<noteq> uptr" "at \<noteq> req" "at \<noteq> at_tok"
  shows "\<exists>d obj. let s' = (requested env sn n a gr b data d len s)\<lparr>umem :=
        (umem s)(at \<mapsto> UParams obj, at_tok \<mapsto> ULong (next_req_token n))\<rparr>
    in api_request_service_no_blocking os uptr ulen ms req len at_tok \<lparr>linber_fd = fd, world = Running s\<rparr> =
         ((LINBER_REQUEST_WAITING, d), \<lparr>linber_fd = fd, world = Running s'\<rparr>) \<and>
       serving_service s' u sn (queued env d a n) tok w pid"
proof -
  define d where "d = absolute_deadline (sys_clock_gettime os (Running s)) ms"
  define obj where "obj = queueing_params (with_uri uptr ulen (uninitialised os)) at_tok d False req len"
  let ?s = "s\<lparr>umem := (umem s)(at \<mapsto> UParams obj)\<rparr>"
  define s' where "s' = (requested env sn n a gr b data d len s)\<lparr>umem :=
    (umem s)(at \<mapsto> UParams obj, at_tok \<mapsto> ULong (next_req_token n))\<rparr>"
  have obj: "service_uri_ptr obj = uptr" "service_uri_len obj = ulen" "status (op_request obj) = 0"
    "blocking (op_request obj) = 0" "rp_request_shm_mode (op_request obj) = 0" "rp_request_len (op_request obj) = len"
    "rp_request (op_request obj) = req" "ptr_token (op_request obj) = at_tok" "rp_abs_deadline_ns (op_request obj) = d"
    by (simp_all add: obj_def queueing_params_def with_uri_def)
  from ser have wf: "well_formed s" and look: "lookup s u = Some sn" and n: "sers s sn = Some n" "\<not> destroy_me n"
    by (simp_all add: serving_service_def)
  have handler: "linber_request_service env u (op_request obj) ?s = Inr (Done LINBER_REQUEST_WAITING, s')"
    using queue_request [of ?s env u sn n "op_request obj" b g a gr data] wf env look n mem len data tokp apart
    by (simp add: obj s'_def requested_def copy_from_user_def)
  from ends_in_Inr [OF linber_request_service_ok handler] wf env have wf': "well_formed s'" by simp
  have "ioctl_send os IOCTL_REQUEST_SERVICE (Params obj) \<lparr>linber_fd = fd, world = Running s\<rparr> =
      (LINBER_REQUEST_WAITING, \<lparr>linber_fd = fd, world = Running s'\<rparr>)"
    using call_returns [OF os, of "\<lparr>linber_fd = fd, world = Running s\<rparr>" s obj u IOCTL_REQUEST_SERVICE] fd uri apart(1)
      handler by (simp add: obj call_handler_def resume_def)
  moreover have "serving_service s' u sn (queued env d a n) tok w pid"
    by (rule serving_service_cong [OF ser wf']) (simp_all add: s'_def)
  ultimately show ?thesis
    by (intro exI [of _ d] exI [of _ obj])
      (simp add: api_request_service_no_blocking_def d_def [symmetric] obj_def [symmetric] s'_def [symmetric] Let_def)
qed

text \<open>The worker's call: it returns with the payload in memory of its own.\<close>

lemma worker_starts:
  assumes ser: "serving_service s u sn n tok w (current env)"
    and os: "linked env at brk os" and fd: "0 \<le> fd" and env: "rb_ok (rb_reqs env)"
    and idle: "serving (worker_slots n ! unat w) = None"
    and wait: "waiting (Requests_rbtree n) = (d, a) # rest" and sem: "0 < sem_for_request n"
    and r: "reqs s a = Some r" "\<not> request_shm_mode r" "request_len r \<le> LINBER_MAX_MEM_SIZE"
      "bufs s (request r) = Some data" "length data = unat (request_len r)"
    and uri: "has_uri s uptr ulen u"
    and mem: "umem s len_ptr \<noteq> None" "umem s mode_ptr \<noteq> None" "umem s brk = None"
    and apart: "distinct [at, uptr, len_ptr, mode_ptr, brk]"
  shows "\<exists>t s'. waiting t = rest \<and> well_formed s' \<and>
    linber_start_job_service os key uptr ulen tok w old len_ptr mode_ptr \<lparr>linber_fd = fd, world = Running s\<rparr> =
      ((0, brk), \<lparr>linber_fd = fd, world = Running s'\<rparr>) \<and>
    sers s' = (sers s)(sn \<mapsto> taken (unat w) a t (n\<lparr>sem_for_request := sem_for_request n - 1\<rparr>)) \<and>
    reqs s' = reqs s \<and> bufs s' = bufs s \<and> Services_rbtree s' = Services_rbtree s \<and>
    umem s' brk = Some (UBytes data) \<and> umem s' len_ptr = Some (UInt (request_len r)) \<and>
    (\<forall>x. x \<notin> {at, len_ptr, mode_ptr, brk} \<longrightarrow> umem s' x = umem s x)"
proof -
  define sj where "sj = \<lparr>sj_worker_id = w, sj_service_token = tok, ptr_request_len = len_ptr,
    ptr_request_shm_mode = mode_ptr, sj_data = key\<rparr>"
  have sj: "sj_worker_id sj = w" "sj_service_token sj = tok" "ptr_request_len sj = len_ptr"
    "ptr_request_shm_mode sj = mode_ptr" by (simp_all add: sj_def)
  define obj where "obj = (with_uri uptr ulen (uninitialised os))\<lparr>op_start_job := sj\<rparr>"
  let ?sj = "sj\<lparr>sj_data := brk\<rparr>"
  let ?obj = "obj\<lparr>op_start_job := ?sj\<rparr>"
  have obj: "service_uri_ptr obj = uptr" "service_uri_len obj = ulen" "op_start_job obj = sj"
    by (simp_all add: obj_def with_uri_def)
  let ?s = "s\<lparr>umem := (umem s)(at \<mapsto> UParams obj)\<rparr>"
  have "\<exists>t s1. waiting t = rest \<and> well_formed s1 \<and>
      bnd (call_handler env IOCTL_START_JOB_SERVICE u obj ?s) (resume env obj) = Inr (Some (0, s1)) \<and>
      sers s1 = (sers ?s)(sn \<mapsto> taken (unat (sj_worker_id sj)) a t (n\<lparr>sem_for_request := sem_for_request n - 1\<rparr>)) \<and>
      umem s1 = (umem ?s)(ptr_request_len sj \<mapsto> UInt (request_len r), ptr_request_shm_mode sj \<mapsto> UInt 0) \<and>
      reqs s1 = reqs ?s \<and> bufs s1 = bufs ?s \<and> Services_rbtree s1 = Services_rbtree ?s"
    by (rule start_job_runs [OF _ env _ wait sem]) (use ser idle r mem apart obj(3) in \<open>simp_all add: sj\<close>)
  then obtain t s1 where t: "waiting t = rest" and wf1: "well_formed s1"
    and run1: "bnd (call_handler env IOCTL_START_JOB_SERVICE u obj ?s) (resume env obj) = Inr (Some (0, s1))"
    and ser1: "sers s1 = (sers s)(sn \<mapsto> taken (unat w) a t (n\<lparr>sem_for_request := sem_for_request n - 1\<rparr>))"
    and um1: "umem s1 = (umem s)(at \<mapsto> UParams obj, len_ptr \<mapsto> UInt (request_len r), mode_ptr \<mapsto> UInt 0)"
    and rest1: "reqs s1 = reqs s" "bufs s1 = bufs s" "Services_rbtree s1 = Services_rbtree s"
    by (auto simp: sj)
  let ?p = "\<lambda>s. \<lparr>linber_fd = fd, world = Running s\<rparr>"
  have ne: "uptr \<noteq> at" "brk \<noteq> at" using apart by auto
  have call1: "ioctl_send os IOCTL_START_JOB_SERVICE (Params obj) (?p s) = (0, ?p s1)"
    using call_returns [OF os, of "?p s" s obj u IOCTL_START_JOB_SERVICE 0 s1] fd uri ne run1 by (simp add: obj)
  from linkedD(6) [OF os, of s1 "scast (request_len r)"] um1 mem(3) apart obtain g where
    g: "length g = unat (request_len r)"
      "sys_malloc os (scast (request_len r)) (Running s1) = (brk, Running (s1\<lparr>umem := (umem s1)(brk \<mapsto> UBytes g)\<rparr>))"
    by (auto simp: unat_scast_small [OF r(3)])
  let ?n1 = "taken (unat w) a t (n\<lparr>sem_for_request := sem_for_request n - 1\<rparr>)"
  let ?s2 = "s1\<lparr>umem := (umem s1)(brk \<mapsto> UBytes g)\<rparr>"
  let ?s2' = "?s2\<lparr>umem := (umem ?s2)(at \<mapsto> UParams ?obj)\<rparr>"
  from ser have slot: "unat w < length (worker_slots n)"
    using slot_in_range(1) [OF ser_okD(5) [OF wf_serD]] by (auto simp: serving_service_def)
  then have tasks: "map task (worker_slots ?n1) = map task (worker_slots n)"
    by (intro nth_equalityI) (simp_all add: taken_def with_serving_def nth_list_update)
  have ser': "serving_service s1 u sn ?n1 tok w (current env)"
    by (rule serving_service_cong [OF ser wf1 rest1(3)])
      (use ser1 tasks in \<open>simp_all, simp_all add: taken_def with_serving_def\<close>)
  have run2: "bnd (call_handler env IOCTL_START_JOB_GET_REQUEST_SERVICE u ?obj ?s2') (resume env ?obj) =
      Inr (Some (0, ?s2'\<lparr>umem := (umem ?s2')(sj_data ?sj \<mapsto> UBytes data)\<rparr>))"
    by (rule get_request_runs [where a = a and r = r and g = g and n = ?n1])
      (use ser' slot rest1 r g(1) ne in \<open>simp_all add: sj, simp_all add: taken_def with_serving_def\<close>)
  have uri2: "has_uri ?s2 uptr ulen u"
    using uri apart ne um1 by (subst has_uri_umem [of _ _ s]) simp_all
  define s3 where "s3 = ?s2'\<lparr>umem := (umem ?s2')(brk \<mapsto> UBytes data)\<rparr>"
  have call2: "ioctl_send os IOCTL_START_JOB_GET_REQUEST_SERVICE (Params ?obj) (?p ?s2) = (0, ?p s3)"
    using call_returns [OF os, of "?p ?s2" ?s2 ?obj u IOCTL_START_JOB_GET_REQUEST_SERVICE 0 s3] fd uri2 ne run2
    by (simp add: obj s3_def)
  have ints: "load_int os len_ptr (Running s1) = request_len r" "load_int os mode_ptr (Running s1) = 0"
    using um1 apart by (simp_all add: linkedD(5) [OF os])
  have "linber_start_job_service os key uptr ulen tok w old len_ptr mode_ptr (?p s) = ((0, brk), ?p s3)"
    using call1 call2 ints g(2) linkedD(3) [OF os]
    by (simp add: linber_start_job_service_def sj_def [symmetric] obj_def [symmetric] Let_def)
  then show ?thesis
    using t wf1 ser1 rest1 um1 apart ne
    by (intro exI [of _ t] exI [of _ s3]) (auto simp: s3_def)
qed

end
