(* ===== verification/Linked_Props.thy ===== *)
theory Linked_Props
  imports Linked
begin

text \<open>
  A request's whole way through the library and the module: from the client's memory into
  the worker's, and the response back.
\<close>

section \<open>A system for the examples\<close>

text \<open>One system per process, and one world: malloc always hands out brk.\<close>

definition machine_os :: "env \<Rightarrow> uaddr \<Rightarrow> uaddr \<Rightarrow> machine os" where
  "machine_os env at brk = \<lparr>sys_open = (\<lambda>w. (3, w)), sys_close = (\<lambda>fd w. w),
     sys_ioctl = (\<lambda>fd op arg w. case w of Running s \<Rightarrow> module_ioctl env at op arg s | Stopped e \<Rightarrow> (0, 0, Stopped e)),
     sys_shmget = (\<lambda>key len create w. (- 1, w)), sys_shmat = (\<lambda>id w. (- 1, w)),
     sys_shmctl_set = (\<lambda>id w. w), sys_shmctl_rmid = (\<lambda>id w. w), sys_shmdt = (\<lambda>a w. w),
     sys_malloc = (\<lambda>k w. case w of
         Running s \<Rightarrow> (brk, Running (s\<lparr>umem := (umem s)(brk \<mapsto> UBytes (replicate (unat k) 0))\<rparr>))
       | Stopped e \<Rightarrow> (0, Stopped e)),
     sys_free = (\<lambda>x w. case w of Running s \<Rightarrow> Running (s\<lparr>umem := (umem s)(x := None)\<rparr>) | Stopped e \<Rightarrow> Stopped e),
     sys_ftok = (\<lambda>f i w. - 1), sys_clock_gettime = (\<lambda>w. Some (1, 5)), sys_creat = (\<lambda>f w. w),
     sys_remove = (\<lambda>a w. w),
     load_int = (\<lambda>x w. case w of Running s \<Rightarrow> (case umem s x of Some (UInt v) \<Rightarrow> v | _ \<Rightarrow> 0) | Stopped e \<Rightarrow> 0),
     store_bytes = (\<lambda>x b w. case w of Running s \<Rightarrow> Running (s\<lparr>umem := (umem s)(x \<mapsto> UBytes b)\<rparr>) | Stopped e \<Rightarrow> Stopped e),
     uninitialised = ex_params\<rparr>"

lemma machine_os_linked:
  "kmalloc_param env \<Longrightarrow> kmalloc_uri env \<Longrightarrow> brk \<noteq> 0 \<Longrightarrow> linked env at brk (machine_os env at brk)"
  by (auto simp: linked_def machine_os_def intro!: exI [of _ "replicate (unat k) 0" for k])

text \<open>The client is process 6; both processes hold the URI s, at 110 and 111.\<close>

definition ex_client_env :: env where "ex_client_env = ex_env\<lparr>current := 6\<rparr>"

definition ex_memory :: "uaddr \<rightharpoonup> uval" where
  "ex_memory = ex_umem(110 \<mapsto> UBytes [115], 111 \<mapsto> UBytes [115])"

lemma ex_linked:
  "linked ex_client_env 106 121 (machine_os ex_client_env 106 121)" "linked ex_env 107 120 (machine_os ex_env 107 120)"
  by (rule machine_os_linked; simp add: ex_client_env_def ex_env_def)+


section \<open>To the worker\<close>

text \<open>The worker of slot w, process pid, has the only request of the service.\<close>

definition job_taken :: "kstate \<Rightarrow> bytes \<Rightarrow> addr \<Rightarrow> ServiceNode \<Rightarrow> u64 \<Rightarrow> u32 \<Rightarrow> env \<Rightarrow> addr \<Rightarrow> RequestNode \<Rightarrow> bool" where
  "job_taken s u sn n tok w env a r \<longleftrightarrow> serving_service s u sn n tok w (current env) \<and>
     serves env n tok w a \<and> owned n = [a] \<and> reqs s a = Some r"

lemma taken_simps [simp]:
  "i < length (worker_slots n) \<Longrightarrow> serving (worker_slots (taken i a t n) ! i) = Some a"
  "next_id (taken i a t n) = next_id n" "destroy_me (taken i a t n) = destroy_me n"
  "Max_Workers (taken i a t n) = Max_Workers n" "ser_token (taken i a t n) = ser_token n"
  by (simp_all add: taken_def with_serving_def)

lemma tasks_taken:
  "map task (worker_slots (taken i a t n)) = map task (worker_slots n)"
  by (cases "i < length (worker_slots n)")
    (auto intro!: nth_equalityI simp: taken_def with_serving_def nth_list_update)

lemma job_takenI:
  assumes ser: "serving_service s0 u sn n0 tok w (current env)" and wf: "well_formed s"
    and dir: "Services_rbtree s = Services_rbtree s0"
    and n: "sers s sn = Some (taken (unat w) a t n)" "waiting t = []"
      "waiting (Requests_rbtree n) = [(d, a)]" "owned n = [a]"
    and same: "destroy_me n = destroy_me n0" "Max_Workers n = Max_Workers n0" "ser_token n = ser_token n0"
      "next_id n = next_id n0" "worker_slots n = worker_slots n0"
    and r: "reqs s a = Some r"
  shows "job_taken s u sn (taken (unat w) a t n) tok w env a r"
proof -
  have ser': "serving_service s u sn (taken (unat w) a t n) tok w (current env)"
    by (rule serving_service_cong [OF ser wf dir n(1)]) (simp_all add: same tasks_taken)
  from ser same(5) have slot: "unat w < length (worker_slots n)"
    using slot_in_range(1) [OF ser_okD(5) [OF wf_serD]] by (auto simp: serving_service_def)
  with ser' have "serves env (taken (unat w) a t n) tok w a"
    by (simp add: serves_def serving_service_def)
  with ser' slot r n show ?thesis by (simp add: job_taken_def owned_taken_alone)
qed

text \<open>
  C13: A request reaches a worker whole. Once the client's api_request_service_no_blocking
  has returned, a free worker of the service gets from linber_start_job_service, at once, a
  buffer with exactly the bytes the client sent and their number, and serves that request;
  the client holds the request's token and deadline.
\<close>

theorem request_reaches_worker:
  assumes "serving_service s u sn n tok w (current wenv)" and "owned n = []"
    and "linked cenv cat cbrk cos" and "linked wenv wat brk wos" and "0 \<le> cfd" and "0 \<le> wfd"
    and "env_ok cenv s" and "rb_ok (rb_reqs wenv)"
    and "kmalloc_buffer cenv len = Some (b, g)" and "kmalloc_request cenv = Some (a, gr)"
    and "kmalloc_container cenv" and "len \<le> LINBER_MAX_MEM_SIZE"
    and "has_uri s uptr ulen u" and "copy_from_user req (unat len) s = Some data"
    and "has_uri s wuptr wulen u"
    and "umem s at_tok \<noteq> None" and "umem s len_ptr \<noteq> None" and "umem s mode_ptr \<noteq> None" and "umem s brk = None"
    and "distinct [cat, uptr, req, at_tok, wat, wuptr, len_ptr, mode_ptr, brk]"
  shows "\<exists>d s1 s2 n2 r.
    api_request_service_no_blocking cos uptr ulen ms req len at_tok \<lparr>linber_fd = cfd, world = Running s\<rparr> =
      ((LINBER_REQUEST_WAITING, d), \<lparr>linber_fd = cfd, world = Running s1\<rparr>) \<and>
    linber_start_job_service wos key wuptr wulen tok w old len_ptr mode_ptr \<lparr>linber_fd = wfd, world = Running s1\<rparr> =
      ((0, brk), \<lparr>linber_fd = wfd, world = Running s2\<rparr>) \<and>
    umem s2 brk = Some (UBytes data) \<and> umem s2 len_ptr = Some (UInt len) \<and>
    umem s2 at_tok = Some (ULong (token r)) \<and> job_taken s2 u sn n2 tok w wenv a r \<and>
    client r = current cenv \<and> abs_deadline_ns r = d"
proof -
  note ne = assms(20)
  have rev: "brk \<noteq> cat" "brk \<noteq> at_tok" "len_ptr \<noteq> cat" "len_ptr \<noteq> at_tok" "mode_ptr \<noteq> cat" "mode_ptr \<noteq> at_tok"
    using ne by auto
  from client_queues [OF assms(1,3,5,7,9-14,16), of ms] ne obtain d obj s1 where
    s1: "s1 = (requested cenv sn n a gr b data d len s)\<lparr>umem :=
        (umem s)(cat \<mapsto> UParams obj, at_tok \<mapsto> ULong (next_req_token n))\<rparr>"
    and queue: "api_request_service_no_blocking cos uptr ulen ms req len at_tok \<lparr>linber_fd = cfd, world = Running s\<rparr> =
      ((LINBER_REQUEST_WAITING, d), \<lparr>linber_fd = cfd, world = Running s1\<rparr>)"
    and ser1: "serving_service s1 u sn (queued cenv d a n) tok w (current wenv)"
    by (auto simp: Let_def)
  let ?q = "queued cenv d a n" and ?r = "new_request cenv n b len False 0 d gr"
  from assms(7) have "rb_ok (rb_reqs cenv)" by (simp add: env_ok_def)
  note alone = queued_alone [OF this assms(11,2), of d a]
  have q: "worker_slots ?q = worker_slots n" "0 < sem_for_request ?q" by (simp_all add: queued_def)
  from assms(1) have slot: "unat w < length (worker_slots n)"
    using slot_in_range(1) [OF ser_okD(5) [OF wf_serD]] by (auto simp: serving_service_def)
  have idle: "serving (worker_slots ?q ! unat w) = None"
    using idle_slot [OF assms(2) slot] by (simp add: q)
  have len: "length data = unat len"
    using assms(14) by (auto simp: copy_from_user_def split: option.splits uval.splits if_splits)
  have uri: "has_uri s1 wuptr wulen u"
    using assms(15) ne by (subst has_uri_umem [of _ _ s]) (auto simp: s1)
  have req: "reqs s1 a = Some ?r" "request ?r = b" "bufs s1 b = Some data"
    by (simp_all add: s1 new_request_def fill_request_def)
  have "\<exists>t s2. waiting t = [] \<and> well_formed s2 \<and>
    linber_start_job_service wos key wuptr wulen tok w old len_ptr mode_ptr \<lparr>linber_fd = wfd, world = Running s1\<rparr> =
      ((0, brk), \<lparr>linber_fd = wfd, world = Running s2\<rparr>) \<and>
    sers s2 = (sers s1)(sn \<mapsto> taken (unat w) a t (?q\<lparr>sem_for_request := sem_for_request ?q - 1\<rparr>)) \<and>
    reqs s2 = reqs s1 \<and> bufs s2 = bufs s1 \<and> Services_rbtree s2 = Services_rbtree s1 \<and>
    umem s2 brk = Some (UBytes data) \<and> umem s2 len_ptr = Some (UInt (request_len ?r)) \<and>
    (\<forall>x. x \<notin> {wat, len_ptr, mode_ptr, brk} \<longrightarrow> umem s2 x = umem s1 x)"
    by (rule worker_starts [OF ser1 assms(4,6,8) idle alone(1) q(2)])
      (use assms(12,16-19) ne rev len uri req in \<open>simp_all add: s1\<close>)
  then obtain t s2 where t: "waiting t = []" and wf: "well_formed s2"
    and start: "linber_start_job_service wos key wuptr wulen tok w old len_ptr mode_ptr \<lparr>linber_fd = wfd, world = Running s1\<rparr> =
      ((0, brk), \<lparr>linber_fd = wfd, world = Running s2\<rparr>)"
    and ser2: "sers s2 = (sers s1)(sn \<mapsto> taken (unat w) a t (?q\<lparr>sem_for_request := sem_for_request ?q - 1\<rparr>))"
    and same: "reqs s2 = reqs s1" "Services_rbtree s2 = Services_rbtree s1"
    and um: "umem s2 brk = Some (UBytes data)" "umem s2 len_ptr = Some (UInt len)"
      "umem s2 at_tok = umem s1 at_tok"
    using ne by auto
  have "job_taken s2 u sn (taken (unat w) a t (?q\<lparr>sem_for_request := sem_for_request ?q - 1\<rparr>)) tok w wenv a ?r"
    by (rule job_takenI [OF ser1 wf same(2)]) (use ser2 t alone same(1) req(1) in \<open>simp_all add: owned_def\<close>)
  moreover have "umem s1 at_tok = Some (ULong (token ?r))" "client ?r = current cenv" "abs_deadline_ns ?r = d"
    by (simp_all add: s1)
  ultimately show ?thesis
    using queue start um by (metis (no_types))
qed

theorem request_reaches_worker_witness:
  "\<exists>d s1 s2.
    api_request_service_no_blocking (machine_os ex_client_env 106 121) 110 1 50 102 2 100
      \<lparr>linber_fd = 3, world = Running (ex_idle\<lparr>umem := ex_memory\<rparr>)\<rparr> =
      ((LINBER_REQUEST_WAITING, d), \<lparr>linber_fd = 3, world = Running s1\<rparr>) \<and>
    linber_start_job_service (machine_os ex_env 107 120) 105 111 1 42 0 0 103 104
      \<lparr>linber_fd = 4, world = Running s1\<rparr> = ((0, 120), \<lparr>linber_fd = 4, world = Running s2\<rparr>) \<and>
    umem s2 120 = Some (UBytes [6, 7]) \<and> umem s2 103 = Some (UInt 2)"
proof -
  let ?s = "ex_idle\<lparr>umem := ex_memory\<rparr>"
  have n: "serving_service ?s [115] 7 ex_node 42 0 (current ex_env)" "owned ex_node = []"
    by (simp_all add: serving_service_def) (simp_all add: ex_idle_def ex_node_def Service_check_Worker_def
        owned_def waiting_def ex_env_def)
  have env: "env_ok ex_client_env ?s" by (auto simp: env_ok_def ex_client_env_def ex_env_def ex_idle_def)
  have alloc: "kmalloc_buffer ex_client_env 2 = Some (33, [0, 0])" "kmalloc_request ex_client_env = Some (22, ex_garbage)"
    "kmalloc_container ex_client_env" by (simp_all add: ex_client_env_def ex_env_def)
  have mem: "has_uri ?s 110 1 [115]" "copy_from_user 102 (unat (2 :: u32)) ?s = Some [6, 7]" "has_uri ?s 111 1 [115]"
    by (simp_all add: has_uri_def copy_from_user_def ex_memory_def ex_umem_def)
  have cells: "umem ?s 100 \<noteq> None" "umem ?s 103 \<noteq> None" "umem ?s 104 \<noteq> None" "umem ?s 120 = None"
    by (simp_all add: ex_memory_def ex_umem_def)
  have len: "(2 :: u32) \<le> LINBER_MAX_MEM_SIZE" by (simp add: codes)
  have apart: "distinct [106, 110, 102, 100, 107, 111, 103, 104, 120 :: uaddr]" by simp
  from request_reaches_worker [OF n ex_linked _ _ env ex_ops(1) alloc len mem cells apart, of 3 4 50 105 0]
  show ?thesis by simp blast
qed


section \<open>Handing in the response\<close>

text \<open>The request with its response in kernel memory, in the buffer b.\<close>

definition answer_in :: "addr \<Rightarrow> u32 \<Rightarrow> RequestNode \<Rightarrow> RequestNode" where
  "answer_in b len r = r\<lparr>response_len := len, response_shm_mode := False, response := b,
     result_cmd := LINBER_REQUEST_SUCCESS\<rparr>"

lemma answer_in_simps [simp]:
  "response_len (answer_in b len r) = len" "\<not> response_shm_mode (answer_in b len r)"
  "response (answer_in b len r) = b" "result_cmd (answer_in b len r) = LINBER_REQUEST_SUCCESS"
  "token (answer_in b len r) = token r" "client (answer_in b len r) = client r"
  by (simp_all add: answer_in_def)

lemma worker_ends:
  assumes job: "job_taken s u sn n tok w env a r" and os: "linked env at brk os" and fd: "0 \<le> fd"
    and env: "env_ok env s" and mem: "kmalloc_buffer env len = Some (b, g)" and len: "len \<le> LINBER_MAX_MEM_SIZE"
    and uri: "has_uri s uptr ulen u" and data: "copy_from_user resp (unat len) s = Some data"
    and apart: "at \<noteq> uptr" "at \<noteq> resp"
  shows "\<exists>s'. linber_end_job_service os uptr ulen tok w old 0 resp len \<lparr>linber_fd = fd, world = Running s\<rparr> =
      (0, \<lparr>linber_fd = fd, world = Running s'\<rparr>) \<and> well_formed s' \<and>
    sers s' = (sers s)(sn \<mapsto> moved (unat w) a n) \<and> reqs s' = (reqs s)(a \<mapsto> woken (answer_in b len r)) \<and>
    bufs s' = (bufs s)(b \<mapsto> data) \<and> Services_rbtree s' = Services_rbtree s \<and>
    (\<forall>x. x \<notin> {at, old} \<longrightarrow> umem s' x = umem s x)"
proof -
  from job have ser: "serving_service s u sn n tok w (current env)" and serves: "serves env n tok w a"
    and r: "reqs s a = Some r" by (simp_all add: job_taken_def)
  from ser have wf: "well_formed s" and look: "lookup s u = Some sn" and n: "sers s sn = Some n"
    by (simp_all add: serving_service_def)
  define ej where "ej = \<lparr>ej_worker_id = w, ej_service_token = tok, ej_response_len = len,
    ej_response_shm_mode = 0, ej_response = resp\<rparr>"
  define obj where "obj = (with_uri uptr ulen (uninitialised os))\<lparr>op_end_job := ej\<rparr>"
  have ej: "ej_worker_id ej = w" "ej_service_token ej = tok" "ej_response_len ej = len"
    "ej_response_shm_mode ej = 0" "ej_response ej = resp" by (simp_all add: ej_def)
  have obj: "service_uri_ptr obj = uptr" "service_uri_len obj = ulen" "op_end_job obj = ej"
    by (simp_all add: obj_def with_uri_def)
  let ?s = "s\<lparr>umem := (umem s)(at \<mapsto> UParams obj)\<rparr>"
  have wf': "well_formed ?s" and n': "sers ?s sn = Some n" and r': "reqs ?s a = Some r" and look': "lookup ?s u = Some sn"
    using wf n r look by simp_all
  have data': "copy_from_user resp (unat len) ?s = Some data"
    using data apart by (subst copy_from_user_umem [of _ _ s]) simp_all
  define s1 where "s1 = handed_over (unat w) a (answer_in b len r) ((bufs s)(b \<mapsto> data)) sn n ?s"
  have answer: "(answered ej r)\<lparr>response := b, result_cmd := LINBER_REQUEST_SUCCESS\<rparr> = answer_in b len r"
    by (simp add: answered_def answer_in_def ej)
  have E: "linber_End_Job env u ej ?s = Inr (Done 0, s1)"
    using End_Job_serving [OF wf' look' n', of ej env "unat w" a r] serves serves_slot(1) [OF wf n serves]
      r' mem len data'
    by (simp add: ej serves_def Let_def answer s1_def leD)
  from linber_End_Job_ok [OF wf', of env u ej] E env have wf1: "well_formed s1" by simp
  have "ioctl_send os IOCTL_END_JOB_SERVICE (Params obj) \<lparr>linber_fd = fd, world = Running s\<rparr> =
      (0, \<lparr>linber_fd = fd, world = Running s1\<rparr>)"
    using call_returns [OF os, of "\<lparr>linber_fd = fd, world = Running s\<rparr>" s obj u IOCTL_END_JOB_SERVICE 0 s1] fd uri apart
      E by (simp add: obj call_handler_def resume_def)
  then have "linber_end_job_service os uptr ulen tok w old 0 resp len \<lparr>linber_fd = fd, world = Running s\<rparr> =
      (0, \<lparr>linber_fd = fd, world = Running (s1\<lparr>umem := (umem s1)(old := None)\<rparr>)\<rparr>)"
    by (simp add: linber_end_job_service_def ej_def [symmetric] obj_def [symmetric] Let_def release_memory_def
        linkedD(7) [OF os])
  with wf1 show ?thesis
    by (intro exI [of _ "s1\<lparr>umem := (umem s1)(old := None)\<rparr>"]) (simp add: s1_def)
qed


section \<open>Fetching the response\<close>

lemma job_completed:
  assumes "job_taken s u sn n tok w env a r"
  shows "waiting (Requests_rbtree (moved (unat w) a n)) = []"
    and "serving_list (worker_slots (moved (unat w) a n)) = []"
    and "Completed_RequestsHead (moved (unat w) a n) = [a]"
proof -
  from assms have n: "well_formed s" "sers s sn = Some n" "serves env n tok w a" "owned n = [a]"
    by (simp_all add: job_taken_def serving_service_def)
  from n(3) have "mset (owned (moved (unat w) a n)) = mset (owned n)"
    by (intro owned_moved serves_slot(2) [OF n(1-3)]) (simp add: serves_def)
  then have "size (mset (owned (moved (unat w) a n))) = 1" by (simp only: n(4)) simp
  then show "waiting (Requests_rbtree (moved (unat w) a n)) = []"
    and "serving_list (worker_slots (moved (unat w) a n)) = []"
    and "Completed_RequestsHead (moved (unat w) a n) = [a]"
    by (simp_all add: owned_def)
qed

text \<open>A service whose only request a is completed.\<close>

definition only_completed :: "kstate \<Rightarrow> addr \<Rightarrow> ServiceNode \<Rightarrow> addr \<Rightarrow> RequestNode \<Rightarrow> bool" where
  "only_completed s sn n a r \<longleftrightarrow> well_formed s \<and> sers s sn = Some n \<and> \<not> destroy_me n \<and>
     waiting (Requests_rbtree n) = [] \<and> serving_list (worker_slots n) = [] \<and>
     Completed_RequestsHead n = [a] \<and> reqs s a = Some r"

lemma find_serving_idle: "serving_list ws = [] \<Longrightarrow> find_serving tok k ws = Inr None"
  by (induction ws) (auto split: option.splits)

lemma search_only_completed:
  assumes "only_completed s sn n a r"
  shows "find_Waiting_or_Completed_Request sn d (token r) s = Inr (Some a, s)"
proof -
  from assms have wf: "well_formed s" and n: "sers s sn = Some n" "waiting (Requests_rbtree n) = []"
    and rest: "serving_list (worker_slots n) = []" "Completed_RequestsHead n = [a]" "reqs s a = Some r"
    by (simp_all add: only_completed_def)
  from wf_serD [OF wf n(1)] have ok: "no_empty_queue (Requests_rbtree n)" "\<not> service_mutex n"
    by (simp_all add: ser_ok_def)
  from n(2) ok(1) have "conts (Requests_rbtree n) = []"
    by (cases "conts (Requests_rbtree n)") (auto simp: waiting_def no_empty_queue_def)
  then have leaf: "Requests_rbtree n = Leaf" by (cases "Requests_rbtree n") (auto simp: conts_def)
  show ?thesis
    using n(1) ok(2) rest
    by (simp add: find_Waiting_or_Completed_Request_def steps unlocking leaf RBtree_get_request.simps
        find_serving_idle token_at_def fun_upd_idem)
qed


lemma only_completed_umem [simp]:
  "only_completed (s\<lparr>umem := m\<rparr>) sn n a r = only_completed s sn n a r"
  by (simp add: only_completed_def)

text \<open>The client's wait is over at once: the response is announced.\<close>

lemma response_announced:
  assumes compl: "only_completed s sn n a r" and look: "lookup s u = Some sn"
    and r: "client r = current env" "0 < Request_sem r" "result_cmd r = LINBER_REQUEST_SUCCESS" "\<not> response_shm_mode r"
    and rp: "status rp = 1" "op_request obj = rp" and tok: "umem s (ptr_token rp) = Some (ULong (token r))"
    and mem: "umem s (ptr_response_len rp) \<noteq> None" "umem s (ptr_response_shm_mode rp) \<noteq> None"
  shows "bnd (call_handler env IOCTL_REQUEST_SERVICE u obj s) (resume env obj) = Inr (Some (LINBER_REQUEST_SUCCESS,
    s\<lparr>reqs := (reqs s)(a \<mapsto> r\<lparr>Request_sem := Request_sem r - 1\<rparr>),
      umem := (umem s)(ptr_response_len rp \<mapsto> UInt (response_len r), ptr_response_shm_mode rp \<mapsto> UInt 0)\<rparr>))"
proof -
  from compl have wf: "well_formed s" and n: "sers s sn = Some n" "\<not> destroy_me n" and a: "reqs s a = Some r"
    by (simp_all add: only_completed_def)
  have call: "linber_request_service env u rp s = Inr (Wait_response a, s)"
    using look n a r(1) rp(1) tok search_only_completed [OF compl, of "rp_abs_deadline_ns rp"]
    by (simp add: linber_request_service_def linber_request_service_found_def findService_wf [OF wf] load_ser_def codes CHECK_MEMORY_ERROR_def
        get_user_long_def load_req_def)
  let ?s = "s\<lparr>reqs := (reqs s)(a \<mapsto> r\<lparr>Request_sem := Request_sem r - 1\<rparr>)\<rparr>"
  have down: "down_request False a s = Inr (Some ?s)"
    using a r(2) by (simp add: down_request_def load_req_def modify_req_def)
  obtain v where v: "umem s (ptr_response_len rp) = Some v" using mem(1) by blast
  obtain v' where v': "((umem s)(ptr_response_len rp \<mapsto> UInt (response_len r))) (ptr_response_shm_mode rp) = Some v'"
    using mem(2) by fastforce
  have "request_completed rp a ?s = Inr (Done LINBER_REQUEST_SUCCESS,
      ?s\<lparr>umem := (umem s)(ptr_response_len rp \<mapsto> UInt (response_len r), ptr_response_shm_mode rp \<mapsto> UInt 0)\<rparr>)"
    using r(3,4) v v'
    by (simp add: request_completed_def load_req_def Let_def CHECK_MEMORY_ERROR_def put_user_def flag_cell_def
        del: fun_upd_apply add: fun_upd_same)
  then show ?thesis
    using call down rp(2) by (simp add: call_handler_def resume_def returned_def)
qed

text \<open>The response is copied out, and the request goes.\<close>

lemma response_taken:
  assumes compl: "only_completed s sn n a r" and look: "lookup s u = Some sn"
    and r: "result_cmd r = LINBER_REQUEST_SUCCESS" "\<not> response_shm_mode r" "bufs s (response r) = Some data"
    and tok: "umem s (ptr_token rp) = Some (ULong (token r))" and rp: "op_request obj = rp"
    and mem: "umem s (ptr_response rp) = Some (UBytes g)" "length g = length data"
  shows "bnd (call_handler env IOCTL_REQUEST_SERVICE_GET_RESPONSE u obj s) (resume env obj) =
    Inr (Some (LINBER_REQUEST_SUCCESS, (released a r sn n s)\<lparr>umem := (umem s)(ptr_response rp \<mapsto> UBytes data)\<rparr>))"
proof -
  from compl have wf: "well_formed s" and n: "sers s sn = Some n" "\<not> destroy_me n" and a: "reqs s a = Some r"
    and c: "Completed_RequestsHead n = [a]"
    by (simp_all add: only_completed_def)
  have tok': "get_user_long (ptr_token rp) s = Some (token r)" using tok by (simp add: get_user_long_def)
  have found: "find_token (token_at s) (token r) (Completed_RequestsHead n) = Inr (Some a)"
    using a by (simp add: c token_at_def)
  have rdy: "ready r" and a': "a \<in> set (Completed_RequestsHead n)" using r(1) by (simp_all add: ready_def c)
  have "linber_request_service_get_response env u rp s =
      Inr (Done LINBER_REQUEST_SUCCESS, (released a r sn n s)\<lparr>umem := (umem s)(ptr_response rp \<mapsto> UBytes data)\<rparr>)"
    unfolding get_response_found [OF wf look n tok' found a] deliver_eq [OF wf n(1) a' a rdy]
    using r mem by (simp add: copy_to_user_def)
  then show ?thesis using rp by (simp add: call_handler_def resume_def)
qed


lemma only_completed_down:
  assumes "only_completed s sn n a r"
  shows "only_completed (s\<lparr>reqs := (reqs s)(a \<mapsto> r\<lparr>Request_sem := k\<rparr>)\<rparr>) sn n a (r\<lparr>Request_sem := k\<rparr>)"
  using assms wf_touch [of s a r "r\<lparr>Request_sem := k\<rparr>"]
  by (simp add: only_completed_def same_payload_def same_response_def)

lemma client_fetches:
  assumes compl: "only_completed s sn n a r" and look: "lookup s u = Some sn"
    and os: "linked env at brk os" and fd: "0 \<le> fd"
    and r: "client r = current env" "0 < Request_sem r" "result_cmd r = LINBER_REQUEST_SUCCESS"
      "\<not> response_shm_mode r" "bufs s (response r) = Some data" "response_len r \<le> LINBER_MAX_MEM_SIZE"
    and uri: "has_uri s uptr ulen u"
    and mem: "umem s (at_token ptrs) = Some (ULong (token r))" "umem s (at_response_len ptrs) \<noteq> None"
      "umem s (at_response_shm_mode ptrs) \<noteq> None" "umem s brk = None"
    and apart: "distinct [at, uptr, at_token ptrs, at_response_len ptrs, at_response_shm_mode ptrs, brk]"
  shows "\<exists>s'. api_request_service_get_response os ptrs uptr ulen d \<lparr>linber_fd = fd, world = Running s\<rparr> =
      ((LINBER_REQUEST_SUCCESS, brk), \<lparr>linber_fd = fd, world = Running s'\<rparr>) \<and> well_formed s' \<and>
    umem s' brk = Some (UBytes data) \<and> umem s' (at_response_len ptrs) = Some (UInt (response_len r)) \<and>
    sers s' sn = Some (without a n) \<and> owned (without a n) = [] \<and> Services_rbtree s' = Services_rbtree s \<and>
    reqs s' a = None \<and> bufs s' (response r) = None"
proof -
  let ?p = "\<lambda>s. \<lparr>linber_fd = fd, world = Running s\<rparr>"
  define obj where "obj = (let param = with_uri uptr ulen (uninitialised os) in
    param\<lparr>op_request := (op_request param)\<lparr>ptr_token := at_token ptrs,
      rp_abs_deadline_ns := d, status := 1, ptr_response_len := at_response_len ptrs,
      ptr_response_shm_mode := at_response_shm_mode ptrs, ptr_shm_response_key := at_response_key ptrs\<rparr>\<rparr>)"
  define obj2 where "obj2 = obj\<lparr>op_request := (op_request obj)\<lparr>ptr_response := brk\<rparr>\<rparr>"
  have obj: "service_uri_ptr obj = uptr" "service_uri_len obj = ulen" "status (op_request obj) = 1"
    "ptr_token (op_request obj) = at_token ptrs" "ptr_response_len (op_request obj) = at_response_len ptrs"
    "ptr_response_shm_mode (op_request obj) = at_response_shm_mode ptrs"
    by (simp_all add: obj_def with_uri_def Let_def)
  have obj2: "service_uri_ptr obj2 = uptr" "service_uri_len obj2 = ulen"
    "ptr_token (op_request obj2) = at_token ptrs" "ptr_response (op_request obj2) = brk"
    using obj by (simp_all add: obj2_def)
  have ne: "uptr \<noteq> at" "brk \<noteq> at" "at_token ptrs \<noteq> at" "at_response_len ptrs \<noteq> at" "at_response_shm_mode ptrs \<noteq> at"
    using apart by auto
  let ?r = "r\<lparr>Request_sem := Request_sem r - 1\<rparr>"
  define s1 where "s1 = s\<lparr>reqs := (reqs s)(a \<mapsto> ?r), umem := (umem s)(at \<mapsto> UParams obj,
    at_response_len ptrs \<mapsto> UInt (response_len r), at_response_shm_mode ptrs \<mapsto> UInt 0)\<rparr>"
  have "bnd (call_handler env IOCTL_REQUEST_SERVICE u obj (s\<lparr>umem := (umem s)(at \<mapsto> UParams obj)\<rparr>))
      (resume env obj) = Inr (Some (LINBER_REQUEST_SUCCESS, s1))"
    using response_announced [of "s\<lparr>umem := (umem s)(at \<mapsto> UParams obj)\<rparr>" sn n a r u env "op_request obj" obj]
      compl look r obj mem ne by (simp add: s1_def)
  then have call1: "ioctl_send os IOCTL_REQUEST_SERVICE (Params obj) (?p s) = (LINBER_REQUEST_SUCCESS, ?p s1)"
    using call_returns [OF os, of "?p s" s obj u IOCTL_REQUEST_SERVICE] fd uri ne by (simp add: obj)
  have ints: "load_int os (at_response_len ptrs) (Running s1) = response_len r"
    "load_int os (at_response_shm_mode ptrs) (Running s1) = 0"
    using apart by (simp_all add: linkedD(5) [OF os] s1_def)
  from linkedD(6) [OF os, of s1 "scast (response_len r)"] mem(4) apart ne obtain g where
    g: "length g = unat (response_len r)"
      "sys_malloc os (scast (response_len r)) (Running s1) = (brk, Running (s1\<lparr>umem := (umem s1)(brk \<mapsto> UBytes g)\<rparr>))"
    by (auto simp: unat_scast_small [OF r(6)] s1_def)
  let ?s2 = "s1\<lparr>umem := (umem s1)(brk \<mapsto> UBytes g)\<rparr>"
  define s3 where "s3 = ?s2\<lparr>umem := (umem ?s2)(at \<mapsto> UParams obj2)\<rparr>"
  have compl3: "only_completed s3 sn n a ?r"
    using only_completed_down [OF compl, of "Request_sem r - 1"]
      only_completed_umem [where s = "s\<lparr>reqs := (reqs s)(a \<mapsto> ?r)\<rparr>"] by (simp add: s3_def s1_def)
  from compl have "well_formed s" "sers s sn = Some n" "a \<in> set (Completed_RequestsHead n)" "reqs s a = Some r"
    by (simp_all add: only_completed_def)
  from completed_bufs(2) [where rq = "reqs s" and bf = "bufs s", OF wf_serD this(3,4)] this r
  have len: "length data = unat (response_len r)" by (auto simp: buf_len_def ready_def)
  define s4 where "s4 = (released a ?r sn n s3)\<lparr>umem := (umem s3)(brk \<mapsto> UBytes data)\<rparr>"
  have "bnd (call_handler env IOCTL_REQUEST_SERVICE_GET_RESPONSE u obj2 s3) (resume env obj2) =
      Inr (Some (LINBER_REQUEST_SUCCESS, s4))"
    using response_taken [OF compl3, of u data "op_request obj2" obj2 g env] look r g(1) len mem obj2 apart ne
    by (simp add: s4_def) (simp add: s3_def s1_def)
  moreover have "has_uri ?s2 uptr ulen u"
    using uri apart ne by (subst has_uri_umem [of _ _ s]) (auto simp: s1_def)
  ultimately have call2: "ioctl_send os IOCTL_REQUEST_SERVICE_GET_RESPONSE (Params obj2) (?p ?s2) = (LINBER_REQUEST_SUCCESS, ?p s4)"
    using call_returns [OF os, of "?p ?s2" ?s2 obj2 u IOCTL_REQUEST_SERVICE_GET_RESPONSE] fd ne
    by (simp add: obj2 s3_def)
  have "api_request_service_get_response os ptrs uptr ulen d (?p s) = ((LINBER_REQUEST_SUCCESS, brk), ?p s4)"
    using call1 call2 ints g(2)
    by (simp add: api_request_service_get_response_def obj_def [unfolded Let_def, symmetric] Let_def fetch_response_def
        obj obj2_def [symmetric])
  moreover have "well_formed s4" "sers s4 sn = Some (without a n)" "reqs s4 a = None" "bufs s4 (response r) = None"
    using compl3 r(3,4) released_wf [of s3 sn n a ?r]
    by (simp_all add: only_completed_def s4_def) (simp_all add: released_def response_buf_def)
  moreover have "Services_rbtree s4 = Services_rbtree s" by (simp add: s4_def s3_def s1_def released_def)
  moreover have "umem s4 brk = Some (UBytes data)" "umem s4 (at_response_len ptrs) = Some (UInt (response_len r))"
    using apart ne by (simp_all add: s4_def s3_def s1_def)
  moreover have "owned (without a n) = []"
    using compl by (simp add: only_completed_def owned_def)
  ultimately show ?thesis by (intro exI [of _ s4] conjI)
qed


text \<open>
  C34: A response reaches the client whole. Once the worker's linber_end_job_service has
  returned, the client's api_request_service_get_response does not sleep and gives it a
  buffer with exactly the worker's bytes and their number; the module has freed the request
  and the response, and the service is again without requests, its worker still registered.
\<close>

theorem response_reaches_client:
  assumes "job_taken s u sn n tok w wenv a r" and "client r = current cenv"
    and "linked cenv cat cbrk cos" and "linked wenv wat brk wos" and "0 \<le> cfd" and "0 \<le> wfd"
    and "env_ok wenv s" and "kmalloc_buffer wenv len = Some (b, g)" and "len \<le> LINBER_MAX_MEM_SIZE"
    and "has_uri s wuptr wulen u" and "copy_from_user resp (unat len) s = Some data"
    and "has_uri s uptr ulen u" and "umem s (at_token ptrs) = Some (ULong (token r))"
    and "umem s (at_response_len ptrs) \<noteq> None" and "umem s (at_response_shm_mode ptrs) \<noteq> None"
    and "umem s cbrk = None"
    and "distinct [wat, wuptr, resp, old, cat, uptr, at_token ptrs, at_response_len ptrs,
      at_response_shm_mode ptrs, cbrk]"
  shows "\<exists>s1 s2 n2.
    linber_end_job_service wos wuptr wulen tok w old 0 resp len \<lparr>linber_fd = wfd, world = Running s\<rparr> =
      (0, \<lparr>linber_fd = wfd, world = Running s1\<rparr>) \<and>
    api_request_service_get_response cos ptrs uptr ulen d \<lparr>linber_fd = cfd, world = Running s1\<rparr> =
      ((LINBER_REQUEST_SUCCESS, cbrk), \<lparr>linber_fd = cfd, world = Running s2\<rparr>) \<and>
    umem s2 cbrk = Some (UBytes data) \<and> umem s2 (at_response_len ptrs) = Some (UInt len) \<and>
    reqs s2 a = None \<and> bufs s2 b = None \<and>
    serving_service s2 u sn n2 tok w (current wenv) \<and> owned n2 = []"
proof -
  note ne = assms(17)
  from assms(1) have ser: "serving_service s u sn n tok w (current wenv)" and r: "reqs s a = Some r"
    by (simp_all add: job_taken_def)
  have ne': "wat \<noteq> wuptr" "wat \<noteq> resp" using ne by auto
  from worker_ends [OF assms(1,4,6-11) ne', of old] obtain s1 where
    last: "linber_end_job_service wos wuptr wulen tok w old 0 resp len \<lparr>linber_fd = wfd, world = Running s\<rparr> =
      (0, \<lparr>linber_fd = wfd, world = Running s1\<rparr>)" and wf1: "well_formed s1"
    and s1: "sers s1 = (sers s)(sn \<mapsto> moved (unat w) a n)" "reqs s1 = (reqs s)(a \<mapsto> woken (answer_in b len r))"
      "bufs s1 = (bufs s)(b \<mapsto> data)" "Services_rbtree s1 = Services_rbtree s"
    and um: "\<forall>x. x \<notin> {wat, old} \<longrightarrow> umem s1 x = umem s x" by blast
  have um': "umem s1 x = umem s x" if "x \<noteq> wat" "x \<noteq> old" for x using um that by simp
  let ?n = "moved (unat w) a n" and ?r = "woken (answer_in b len r)"
  have compl: "only_completed s1 sn ?n a ?r"
    using ser wf1 job_completed [OF assms(1)] by (simp add: only_completed_def s1 serving_service_def)
  have same: "umem s1 uptr = umem s uptr" "umem s1 (at_token ptrs) = umem s (at_token ptrs)"
    "umem s1 (at_response_len ptrs) = umem s (at_response_len ptrs)"
    "umem s1 (at_response_shm_mode ptrs) = umem s (at_response_shm_mode ptrs)" "umem s1 cbrk = umem s cbrk"
    using ne by (auto intro!: um')
  have uri: "has_uri s1 uptr ulen u" using assms(12) has_uri_umem [OF same(1)] by simp
  have "\<exists>s2. api_request_service_get_response cos ptrs uptr ulen d \<lparr>linber_fd = cfd, world = Running s1\<rparr> =
      ((LINBER_REQUEST_SUCCESS, cbrk), \<lparr>linber_fd = cfd, world = Running s2\<rparr>) \<and> well_formed s2 \<and>
    umem s2 cbrk = Some (UBytes data) \<and> umem s2 (at_response_len ptrs) = Some (UInt (response_len ?r)) \<and>
    sers s2 sn = Some (without a ?n) \<and> owned (without a ?n) = [] \<and> Services_rbtree s2 = Services_rbtree s1 \<and>
    reqs s2 a = None \<and> bufs s2 (response ?r) = None"
    by (rule client_fetches [OF compl _ assms(3,5)])
      (use assms(2,9,13-16) same uri ser ne s1 in \<open>simp_all add: woken_def serving_service_def\<close>)
  then obtain s2 where fetch: "api_request_service_get_response cos ptrs uptr ulen d \<lparr>linber_fd = cfd, world = Running s1\<rparr> =
      ((LINBER_REQUEST_SUCCESS, cbrk), \<lparr>linber_fd = cfd, world = Running s2\<rparr>)" and wf2: "well_formed s2"
    and um2: "umem s2 cbrk = Some (UBytes data)" "umem s2 (at_response_len ptrs) = Some (UInt len)"
    and n2: "sers s2 sn = Some (without a ?n)" "owned (without a ?n) = []" "Services_rbtree s2 = Services_rbtree s"
    and freed: "reqs s2 a = None" "bufs s2 b = None"
    by (auto simp: woken_def s1)
  have tasks: "map task (worker_slots (without a ?n)) = map task (worker_slots n)"
    by (cases "unat w < length (worker_slots n)")
      (auto intro!: nth_equalityI simp: moved_def with_serving_def nth_list_update)
  have "serving_service s2 u sn (without a ?n) tok w (current wenv)"
    by (rule serving_service_cong [OF ser wf2 n2(3,1)])
      (use tasks in \<open>simp_all, simp_all add: without_def moved_def with_serving_def\<close>)
  with last fetch um2 n2(2) freed show ?thesis
    by (intro exI [of _ s1] exI [of _ s2] exI [of _ "without a ?n"] conjI)
qed

text \<open>The worker serves request 21, which process 6 has sent.\<close>

definition ex_job_node :: ServiceNode where
  "ex_job_node = ex_node\<lparr>worker_slots := [\<lparr>task = Some 5, serving = Some 21\<rparr>]\<rparr>"

definition ex_job :: kstate where
  "ex_job = (ex_state ex_job_node [21 \<mapsto> ex_request\<lparr>client := 6\<rparr>] [31 \<mapsto> [1, 2]])\<lparr>umem := ex_memory\<rparr>"

lemma ex_job_wf: "well_formed ex_job"
  unfolding ex_job_def wf_umem by (rule ex_state_wf) (simp add: ex_nodes ex_job_node_def)

theorem response_reaches_client_witness:
  "\<exists>s1 s2.
    linber_end_job_service (machine_os ex_env 107 120) 111 1 42 0 120 0 102 2
      \<lparr>linber_fd = 4, world = Running ex_job\<rparr> = (0, \<lparr>linber_fd = 4, world = Running s1\<rparr>) \<and>
    api_request_service_get_response (machine_os ex_client_env 106 121) \<lparr>at_token = 100, at_response_key = 105,
      at_response_len = 103, at_response_shm_mode = 104\<rparr> 110 1 100 \<lparr>linber_fd = 3, world = Running s1\<rparr> =
      ((LINBER_REQUEST_SUCCESS, 121), \<lparr>linber_fd = 3, world = Running s2\<rparr>) \<and>
    umem s2 121 = Some (UBytes [6, 7]) \<and> reqs s2 21 = None"
proof -
  let ?ptrs = "\<lparr>at_token = 100, at_response_key = 105, at_response_len = 103, at_response_shm_mode = 104\<rparr>"
  have job: "job_taken ex_job [115] 7 ex_job_node 42 0 ex_env 21 (ex_request\<lparr>client := 6\<rparr>)"
    using ex_job_wf by (simp add: job_taken_def serving_service_def)
      (simp add: ex_job_def ex_job_node_def ex_node_def Service_check_Worker_def owned_def waiting_def ex_env_def serves_def)
  have cl: "client (ex_request\<lparr>client := 6\<rparr>) = current ex_client_env" by (simp add: ex_client_env_def)
  have env: "env_ok ex_env ex_job" unfolding ex_job_def env_ok_umem by (rule ex_env_ok) simp_all
  have alloc: "kmalloc_buffer ex_env 2 = Some (33, [0, 0])" by (simp add: ex_env_def)
  have mem: "has_uri ex_job 111 1 [115]" "copy_from_user 102 (unat (2 :: u32)) ex_job = Some [6, 7]"
    "has_uri ex_job 110 1 [115]" "umem ex_job (at_token ?ptrs) = Some (ULong (token (ex_request\<lparr>client := 6\<rparr>)))"
    "umem ex_job (at_response_len ?ptrs) \<noteq> None" "umem ex_job (at_response_shm_mode ?ptrs) \<noteq> None"
    "umem ex_job 121 = None"
    by (simp_all add: has_uri_def copy_from_user_def ex_job_def ex_memory_def ex_umem_def ex_request_def)
  have len: "(2 :: u32) \<le> LINBER_MAX_MEM_SIZE" by (simp add: codes)
  have apart: "distinct [107, 111, 102, 120, 106, 110, at_token ?ptrs, at_response_len ?ptrs,
    at_response_shm_mode ?ptrs, 121 :: uaddr]" by simp
  from response_reaches_client [OF job cl ex_linked _ _ env alloc len mem apart, of 3 4 100]
  show ?thesis by simp blast
qed

end
