(* ===== verification/Device_File.thy ===== *)
theory Device_File
  imports Handlers
begin

text \<open>
  The device file's other operations (driver/linber_main.c: dev_open, dev_release, dev_read,
  dev_write, linber_uevent). They keep no state of the program; the module's reference count
  and the uevent environment belong to the kernel, whose calls are arguments here.
\<close>

section \<open>Operations\<close>

definition dev_open :: "('k \<Rightarrow> bool \<times> 'k) \<Rightarrow> 'k \<Rightarrow> int \<times> 'k" where
  "dev_open try_module_get k = (let (got, k) = try_module_get k in (0, k))"

definition dev_release :: "('k \<Rightarrow> 'k) \<Rightarrow> 'k \<Rightarrow> int \<times> 'k" where
  "dev_release module_put k = (0, module_put k)"

definition dev_read :: "uaddr \<Rightarrow> u64 \<Rightarrow> int" where
  "dev_read buf sz = 0"

definition dev_write :: "uaddr \<Rightarrow> u64 \<Rightarrow> int" where
  "dev_write buf sz = 0"

text \<open>The variable DEVMODE=0666, in ASCII: everybody may read and write the device.\<close>

definition devmode :: bytes where
  "devmode = [68, 69, 86, 77, 79, 68, 69, 61, 48, 54, 54, 54]"

definition linber_uevent :: "(bytes \<Rightarrow> 'k \<Rightarrow> 'k) \<Rightarrow> 'k \<Rightarrow> int \<times> 'k" where
  "linber_uevent add_uevent_var k = (0, add_uevent_var devmode k)"


section \<open>The reference count\<close>

text \<open>
  try_module_get counts a reference unless it refuses, as it does while the module is being
  unloaded; module_put drops one.
\<close>

lemma open_and_release_balance:
  assumes "try_module_get k = (True, k')" and "refs_of k' = refs_of k + 1" and "refs_of (module_put k') = refs_of k' - (1 :: int)"
  shows "refs_of (snd (dev_release module_put (snd (dev_open try_module_get k)))) = refs_of k"
  using assms by (simp add: dev_open_def dev_release_def)

text \<open>
  A refused reference is not noticed: the open succeeds, and the release drops a reference
  somebody else holds.
\<close>

lemma refused_open_steals_reference:
  assumes "try_module_get k = (False, k)" and "refs_of (module_put k) = refs_of k - (1 :: int)"
  shows "fst (dev_open try_module_get k) = 0"
    and "refs_of (snd (dev_release module_put (snd (dev_open try_module_get k)))) = refs_of k - 1"
  using assms by (simp_all add: dev_open_def dev_release_def)

end
