(* ===== verification/Spec2Isabelle.thy ===== *)
theory Spec2Isabelle
  imports Result_Props Device_Props Client_Props Linked_Props Device_File
begin

text \<open>
  Linber: an inter-process communication service in a Linux kernel module, with deadlines.
  A server process registers a service under a URI and starts workers for it; clients send
  requests to the URI; the module keeps the requests of a service in a red-black tree by
  deadline and hands the first one to each worker that becomes free; the worker's response
  goes back to the client. Payloads are copied through the kernel or stay in System V shared
  memory. The code is in driver/ (the module), libs/ (a C library over the module's ioctl
  interface and two C++ classes over the library), all under src/.

  How the program is modelled.

  Prelude: results that may be a fault, contracts on them (ends_in), C strings, words.
  A fault stands for what the C code must never do: following a NULL or wild pointer, using
  freed memory, corrupting a list, overflowing a buffer, waiting for a mutex nobody will
  release, looping for ever.

  Linux_Rbtree (the tree functions of Linux): struct rb_root is a tree of containers; the
  descent of the C code is rb_descend. rb_link_node with rb_insert_color, rb_erase and
  rb_first are arguments (rb_ops) of which rb_ok states what Linux promises; plain_ops, an
  unbalanced tree, shows that it can hold.

  Request_Tree and Service_Tree (driver/src/linber_RBtree.c): the tree of waiting requests,
  one container per deadline with a queue of requests, and the tree of services by URI. The
  locales deadline_queue and service_directory state the two interfaces; they are interpreted
  there on these functions.

  Linber_State (driver/inc/linber_types.h, libs/inc/linber_ioctl.h, the state of
  driver/linber_main.c): the record kstate holds linber_struct and a heap each for services,
  requests and payload buffers, as maps from addresses; freed memory is absent. It also
  holds user memory (umem), and the scheduling attributes of the tasks. What the kernel
  decides in a call (the memory handed out, the time, random bytes, the results of
  sched_setattr, which of the allocations fail) is the record env; env_ok states that memory
  handed out is not in use.

  Requests, Service_Life, Workers, Handlers (driver/linber_main.c in the order of the file):
  one definition per C function, with the same name. A handler is the lookup of its service
  and the rest of the function, which has the suffix _found: findService gives linber.mutex
  back, so that other calls can run in between. A call that waits on a semaphore is split
  there too: linber_request_service ends in Wait_init or Wait_response and goes on with
  request_queued or request_completed; linber_Start_Job ends in Wait_job and goes on with
  start_job_woken. Each of these segments runs without interleaving: it holds the mutexes
  for its short critical sections. Device_File has the remaining operations of the device
  file.

  Looked_Up, Linber_System: the module with its processes. A step is the lookup of a call,
  the rest of a call up to its return or its wait, the waking of a process that waits, or a
  process writing to its memory; reachable states are the closure from init_module.

  Service_API and Service_Classes (libs/src): the library's calls as functions on a process
  with the descriptor linber_fd and a world of system calls (the record os), and the two C++
  classes over them. Functions of the library that have the name of one in the module carry
  the prefix api_.

  What the lemmas show.

  Request_Tree, Service_Tree (C1 to C9): the trees refine a list of requests in dispatch
  order and a map from URIs; the order is earliest deadline first and first in first out
  among equals; where the searches fail.

  Invariant, Request_Props, Service_Props, Worker_Props, Handler_Props: well_formed, the
  invariant of the module's state, and that every operation keeps it. Each operation has an
  equation that gives its result and its state on every branch, from which its contract
  follows. Dispatcher_Props puts the handlers under one locale (handler), interpreted for
  each of them, and derives the contract of linber_ioctl (C12).

  Linked, Linked_Props (C13, C34): the library on the module. The ioctl of the library's
  system is linber_ioctl, run up to its return (module_ioctl); linked states what the system
  below a process promises, machine_os is one that keeps it. The bytes a client sends are
  those its worker gets, and the worker's bytes are those the client gets.

  Job_Props (C14 to C19): a request's way through worker and back in the module.
  Worker_Life_Props (C20 to C26): registering, leaving, scheduling, destroying, unloading.
  Status_Props and Device_Props (C27, C28): the system status. API_Props and Client_Props
  (C29 to C32, C35, C36, C38): the library and the classes.

  Evolution, Handler_Evolution: what a handler leaves alone. Requests keep their token, a
  service's tokens are distinct, completed requests stay deliverable, worker ids are not
  taken back. The locale tracking_handler extends handler by this and is interpreted for each
  handler. Looked_Up: the rest of a call does to a changed state what a whole call does, or
  returns a code, or finds its service gone. Linber_System and System_Props (C37, C39, C40):
  therefore these hold in every reachable state; which calls fault because of what ran
  between their halves; and waiting requests are served in turn. Result_Codes, Result_Props
  (C33): the values each call can return.

  Bounds and fuel. destroy_waiting gets one more than the number of waiting requests as fuel
  and uses up one per request (destroy_waiting_drains); remove_all_services gets one more
  than the size of the tree (remove_all_services_ok). worker_loop may run for ever and is a
  partial function with the value None then; C38 characterises when it ends. The search
  RBtree_get_request gives None exactly where the C loop does not end (C6). Linber_System
  asks that no service's 64-bit token counter is exhausted and that memory of a service
  destroyed under a sleeping worker is not handed out again before the worker wakes; a run in
  which a worker hands in an oversized response (C19) or a system status fails (C27) stops
  being a run there. C12, C28 and Linber_System assume fewer than 2^32 services where the
  system status is asked for.

  Not modelled. Interleaving inside a segment, between the critical sections of the rest of a
  call. What the kernel does with the device registration calls, which are listed
  (device_call). printk, the printed messages of the library, the freeing of a call's own
  parameter block and of the URI. The scheduler itself: sched_setattr only records the
  attributes. The monitor, the tests and the build files use the library and are not part of
  it. The Linux tree functions, memory allocator, user memory access and system calls are
  arguments of the definitions.
\<close>

section \<open>Services\<close>

text \<open>
  C10: Registering a service: a URI that is taken is refused without any change; otherwise
  the service is created with the token the kernel drew, unless memory runs out after the
  node itself was allocated: the clean-up then unlinks a node that was never linked.
\<close>

theorem register_service_outcome:
  assumes "well_formed s" and "env_ok env s"
  shows "linber_register_service env u reg s =
    (if lookup s u \<noteq> None then Inr (Done LINBER_SERVICE_REGISTRATION_ALREADY_EXISTS, s)
     else case kmalloc_service env of
       None \<Rightarrow> Inr (Done LINBER_SERVICE_REGISTRATION_FAIL, s)
     | Some (sn, g) \<Rightarrow>
         if kmalloc_slots env \<and> kmalloc_container env then
           (case put_user (ULong (get_random_bytes env)) (ptr_service_token reg) (created env u reg sn g s) of
              None \<Rightarrow> Inr (Done LINBER_USER_MEMORY_ERROR, created env u reg sn g s)
            | Some s' \<Rightarrow> Inr (Done LINBER_SERVICE_REGISTRATION_SUCCESS, s'))
         else Inl List_corruption)"
proof (cases "lookup s u")
  case None
  with create_service_eq [OF assms None, of reg] assms(1) show ?thesis
    by (auto simp: linber_register_service_def linber_register_service_found_def findService_wf load_ser_def created_def
        CHECK_MEMORY_ERROR_def split: option.split)
next
  case (Some sn)
  with assms(1) show ?thesis by (simp add: linber_register_service_def linber_register_service_found_def findService_wf)
qed

theorem register_service_outcome_witness:
  "linber_register_service ex_env [115] \<lparr>reg_Max_Working = 2, ptr_service_token = 100,
     reg_exec_time_ns = 5, service_period_ns = 9, service_budget_ns = 4\<rparr> ex_idle =
     Inr (Done (- 1), ex_idle)"
  using register_service_outcome [OF ex_idle_wf ex_envs_ok(1), of "[115]" "\<lparr>reg_Max_Working = 2,
     ptr_service_token = 100, reg_exec_time_ns = 5, service_period_ns = 9, service_budget_ns = 4\<rparr>"]
  by (simp add: ex_idle_def ex_node_def codes)

text \<open>
  C11: Destroying a service wakes every waiting and every completed request with the result
  LINBER_ABORT_REQUEST, each once, and no other; the service goes at once when no worker is
  registered, else it is left, without requests, to its workers, who are all woken.
\<close>

theorem destroy_service_outcome:
  assumes "well_formed s" and "rb_ok (rb_reqs env)" and "sers s sn = Some n"
  shows "destroy_service env sn s =
    (let s' = s\<lparr>reqs := \<lambda>a. if a \<in> set (map snd (waiting (Requests_rbtree n)) @ Completed_RequestsHead n)
                        then map_option (\<lambda>r. r\<lparr>result_cmd := LINBER_ABORT_REQUEST,
                               Request_sem := Suc (Request_sem r)\<rparr>) (reqs s a) else reqs s a\<rparr>
     in if count_registered n = 0 then
          Inr (s'\<lparr>Services_count := Services_count s - 1, Services := remove1 sn (Services s),
                  Services_rbtree := snd (Remove_Service (rb_sers env) (Services_rbtree s) (uri n)),
                  Max_Working := Max_Working s - Max_Workers n, sers := (sers s)(sn := None)\<rparr>)
        else Inr (s'\<lparr>sers := (sers s)(sn \<mapsto> n\<lparr>Requests_rbtree := Leaf, Completed_RequestsHead := [],
               sem_for_request := sem_for_request n + unat (count_registered n), destroy_me := True\<rparr>)\<rparr>))"
proof -
  have "(\<lambda>r. r\<lparr>result_cmd := LINBER_ABORT_REQUEST, Request_sem := Suc (Request_sem r)\<rparr>) = abort"
    by (simp add: abort_def fun_eq_iff)
  note fold_abort = this
  show ?thesis
    unfolding fold_abort
    using destroy_service_eq [OF assms(2,3) wf_serD [OF assms(1,3)] wf_Services [OF assms(1,3)]]
    by (simp add: abort_all_def idle_requests_def unlinked_def drained_def Let_def)
qed

theorem destroy_service_outcome_witness:
  "\<exists>s'. destroy_service ex_env 7 ex_waiting = Inr s' \<and>
     map_option result_cmd (reqs s' 21) = Some LINBER_ABORT_REQUEST"
  using destroy_service_outcome [OF ex_waiting_wf ex_ops(1), of 7]
  by (simp add: ex_waiting_def Let_def ex_node_def waiting_def)



end
